theory Spec2Isabelle
  imports Main "HOL-Library.Word"
begin

unbundle bit_operations_syntax

section \<open>Data model of the Application Processor\<close>

text \<open>
  The development embeds \<^verbatim>\<open>application_processor.c\<close> and \<^verbatim>\<open>host_messaging.c\<close>.
  Machine integers are words; C \<^verbatim>\<open>int\<close> return codes are only ever compared with
  \<^verbatim>\<open>SUCCESS_RETURN\<close>, or hold a byte value or \<^verbatim>\<open>-1\<close>, so they are \<open>int\<close>.
\<close>

type_synonym u8 = "8 word"
type_synonym u32 = "32 word"
type_synonym u64 = "64 word"
type_synonym i2c_addr_t = "8 word"

definition SUCCESS_RETURN :: int where "SUCCESS_RETURN = 0"
definition ERROR_RETURN :: int where "ERROR_RETURN = - 1"
definition UINT32_MAX :: u32 where "UINT32_MAX = 0xFFFFFFFF"
definition FLASH_ENC_LEN :: nat where "FLASH_ENC_LEN = 160"

text \<open>\<^verbatim>\<open>component_cmd_t\<close>; the opcode byte of a frame holds the enumerator's value.\<close>

datatype component_cmd_t =
  COMPONENT_CMD_NONE | COMPONENT_CMD_SCAN | COMPONENT_CMD_VALIDATE
  | COMPONENT_CMD_BOOT | COMPONENT_CMD_ATTEST

fun cmd_code :: "component_cmd_t \<Rightarrow> u8" where
  "cmd_code COMPONENT_CMD_NONE = 0"
| "cmd_code COMPONENT_CMD_SCAN = 1"
| "cmd_code COMPONENT_CMD_VALIDATE = 2"
| "cmd_code COMPONENT_CMD_BOOT = 3"
| "cmd_code COMPONENT_CMD_ATTEST = 4"

text \<open>
  \<^verbatim>\<open>msg_t\<close> is declared in \<^verbatim>\<open>ap_messaging.h\<close>; the source uses the three fields below.
  \<open>contents\<close> is a byte array of a fixed size that the source never states.
\<close>

record msg_t =
  opcode :: u8
  contents :: "u8 list"
  rng_chal :: u32

text \<open>\<^verbatim>\<open>flash_entry\<close>, packed: \<open>component_ids\<close> has 32 slots.\<close>

record flash_entry =
  flash_magic :: u32
  component_cnt :: u32
  component_ids :: "u32 list"
  hash :: "u8 list"
  iv :: "u8 list"

subsection \<open>Bytes of 32-bit values (little-endian, as on the Cortex-M4 target)\<close>

definition u32_bytes :: "u32 \<Rightarrow> u8 list" where
  "u32_bytes v = [ucast v, ucast (drop_bit 8 v), ucast (drop_bit 16 v), ucast (drop_bit 24 v)]"

text \<open>
  \<^verbatim>\<open>*((uint32_t*) buf)\<close> as an rvalue: the first four bytes of \<open>buf\<close>. The buffers of
  the source have more than four bytes; on a shorter list the bytes present are read.
\<close>

definition read_u32 :: "u8 list \<Rightarrow> u32" where
  "read_u32 bs = foldr (\<lambda>b acc. ucast b OR push_bit 8 acc) (take 4 bs) 0"

text \<open>\<^verbatim>\<open>*((uint32_t*) buf) = v\<close>: overwrites the first four bytes of \<open>buf\<close>.\<close>

definition write_u32 :: "u32 \<Rightarrow> u8 list \<Rightarrow> u8 list" where
  "write_u32 v bs = u32_bytes v @ drop 4 bs"

text \<open>\<^verbatim>\<open>memcpy(dst, src, n)\<close> on byte arrays.\<close>

definition memcpy :: "'a list \<Rightarrow> 'a list \<Rightarrow> nat \<Rightarrow> 'a list" where
  "memcpy dst src n = take n src @ drop n dst"

subsection \<open>Observable events\<close>

text \<open>
  Every call that leaves the core (console macros of \<^verbatim>\<open>host_messaging.h\<close>, the message
  layer, the flash driver, LEDs and delays) is recorded, in program order, in a trace.
  A print records its format string and its arguments, a transmit records the two
  frames as they are when \<^verbatim>\<open>ap_transmit\<close> is entered, a delay records its microseconds.
\<close>

datatype print_arg = ArgU32 u32 | ArgStr string | ArgBytes "u8 list"

datatype level = Info | Debug | Error | Success

datatype led = LED1 | LED2 | LED3

datatype event =
    Print level string "print_arg list"
  | Ack
  | Puts string
  | Transmit i2c_addr_t msg_t msg_t
  | PollRecv i2c_addr_t bool
  | ResetMsg
  | FlashErase
  | FlashWrite "u8 list"
  | TimeDelay int int
  | MxcDelay int
  | LedOn led
  | LedOff led
  | BoardLinkInit

subsection \<open>External collaborators\<close>

text \<open>
  The message layer (\<^verbatim>\<open>ap_messaging.c\<close>), the board link, the crypto primitives and the
  build-time constants are not part of the two source files. They are parameters of
  the model. The message layer works on the two global frames and on a state of its
  own (bus, peers, random numbers) of type \<open>'e\<close>; it cannot reach \<open>flash_status\<close>.
\<close>

type_synonym 'e link = "'e \<times> msg_t \<times> msg_t"

record 'e platform =
  ext_ap_transmit :: "i2c_addr_t \<Rightarrow> 'e link \<Rightarrow> int \<times> 'e link"
  ext_ap_poll_recv :: "i2c_addr_t \<Rightarrow> bool \<Rightarrow> 'e link \<Rightarrow> int \<times> 'e link"
  ext_reset_msg :: "'e link \<Rightarrow> 'e link"
  ext_component_id_to_i2c_addr :: "u32 \<Rightarrow> i2c_addr_t"
  ext_hash :: "u8 list \<Rightarrow> u8 list"
  ext_aes_encrypt :: "u8 list \<Rightarrow> u8 list \<Rightarrow> u8 list"
  ext_aes_decrypt :: "u8 list \<Rightarrow> u8 list \<Rightarrow> u8 list"
  ext_rng_gen :: "'e \<Rightarrow> u64 \<times> 'e"
  ext_secure_memcmp :: "string \<Rightarrow> string \<Rightarrow> nat \<Rightarrow> int"
  ext_sscanf_x :: "string \<Rightarrow> u32 option"
  HASH_LEN :: nat
  IV_LEN :: nat
  FLASH_MAGIC :: u32
  COMPONENT_CNT :: u32
  COMPONENT_IDS :: "u32 list"
  AP_PIN :: string
  AP_TOKEN :: string
  AP_BOOT_MSG :: string

subsection \<open>Program state\<close>

text \<open>
  The globals \<open>flash_status\<close>, \<open>transmit\<close> and \<open>receive\<close>, the state of the external
  world, the roster record of the flash page, the pending console input and the trace.
\<close>

record 'e ap_state =
  flash_status :: flash_entry
  transmit :: msg_t
  receive :: msg_t
  env :: 'e
  flash :: "u8 list"
  stdin :: string
  trace :: "event list"

definition emit :: "event \<Rightarrow> 'e ap_state \<Rightarrow> 'e ap_state" where
  "emit e s = s\<lparr>trace := trace s @ [e]\<rparr>"

definition print_info :: "string \<Rightarrow> print_arg list \<Rightarrow> 'e ap_state \<Rightarrow> 'e ap_state" where
  "print_info fmt args = emit (Print Info fmt args)"

definition print_debug :: "string \<Rightarrow> print_arg list \<Rightarrow> 'e ap_state \<Rightarrow> 'e ap_state" where
  "print_debug fmt args = emit (Print Debug fmt args)"

definition print_error :: "string \<Rightarrow> print_arg list \<Rightarrow> 'e ap_state \<Rightarrow> 'e ap_state" where
  "print_error fmt args = emit (Print Error fmt args)"

definition print_success :: "string \<Rightarrow> print_arg list \<Rightarrow> 'e ap_state \<Rightarrow> 'e ap_state" where
  "print_success fmt args = emit (Print Success fmt args)"

text \<open>The events a run from \<open>s\<close> to \<open>s'\<close> has added.\<close>

definition emitted :: "'e ap_state \<Rightarrow> 'e ap_state \<Rightarrow> event list" where
  "emitted s s' = drop (length (trace s)) (trace s')"

text \<open>The transmissions of a trace, in order: address, transmit frame, receive frame.\<close>

fun transmits :: "event list \<Rightarrow> (i2c_addr_t \<times> msg_t \<times> msg_t) list" where
  "transmits [] = []"
| "transmits (Transmit a t r # es) = (a, t, r) # transmits es"
| "transmits (_ # es) = transmits es"

subsection \<open>Calls into the message layer\<close>

definition ap_transmit :: "'e platform \<Rightarrow> i2c_addr_t \<Rightarrow> 'e ap_state \<Rightarrow> int \<times> 'e ap_state" where
  "ap_transmit P addr s =
     (let s0 = emit (Transmit addr (transmit s) (receive s)) s;
          (result, (e, t, r)) = ext_ap_transmit P addr (env s0, transmit s0, receive s0)
      in (result, s0\<lparr>env := e, transmit := t, receive := r\<rparr>))"

definition ap_poll_recv :: "'e platform \<Rightarrow> i2c_addr_t \<Rightarrow> bool \<Rightarrow> 'e ap_state \<Rightarrow> int \<times> 'e ap_state" where
  "ap_poll_recv P addr skip s =
     (let s0 = emit (PollRecv addr skip) s;
          (result, (e, t, r)) = ext_ap_poll_recv P addr skip (env s0, transmit s0, receive s0)
      in (result, s0\<lparr>env := e, transmit := t, receive := r\<rparr>))"

definition reset_msg :: "'e platform \<Rightarrow> 'e ap_state \<Rightarrow> 'e ap_state" where
  "reset_msg P s =
     (let s0 = emit ResetMsg s;
          (e, t, r) = ext_reset_msg P (env s0, transmit s0, receive s0)
      in s0\<lparr>env := e, transmit := t, receive := r\<rparr>)"

section \<open>Protocol engine\<close>

text \<open>\<^verbatim>\<open>issue_cmd\<close>: transmit, then one polled receive with challenge checking.\<close>

definition issue_cmd :: "'e platform \<Rightarrow> i2c_addr_t \<Rightarrow> 'e ap_state \<Rightarrow> int \<times> 'e ap_state" where
  "issue_cmd P addr s =
     (let (result, s1) = ap_transmit P addr s
      in if result \<noteq> SUCCESS_RETURN then (ERROR_RETURN, s1)
         else let (result2, s2) = ap_poll_recv P addr False s1
              in if result2 \<noteq> SUCCESS_RETURN then (ERROR_RETURN, s2)
                 else (SUCCESS_RETURN, s2))"

text \<open>The loop bound \<^verbatim>\<open>flash_status.component_cnt\<close> and the roster slot \<open>i\<close>.\<close>

definition cnt :: "'e ap_state \<Rightarrow> nat" where
  "cnt s = unat (component_cnt (flash_status s))"

definition comp_id :: "'e ap_state \<Rightarrow> nat \<Rightarrow> u32" where
  "comp_id s i = component_ids (flash_status s) ! i"

text \<open>
  The array has 32 slots and the source reads slot \<open>i\<close> for every \<open>i\<close> below
  \<open>component_cnt\<close>: a count above 32 makes it read past the array. The statements
  about the roster are made for the states that satisfy the bound.
\<close>

definition roster_ok :: "'e ap_state \<Rightarrow> bool" where
  "roster_ok s \<longleftrightarrow> length (component_ids (flash_status s)) = 32 \<and> cnt s \<le> 32"

subsection \<open>\<^verbatim>\<open>boot_components\<close>\<close>

text \<open>
  The part of the loop body before \<^verbatim>\<open>issue_cmd\<close>: the saved challenge goes to
  \<open>receive.rng_chal\<close>, the current boot result decides the first word of
  \<open>transmit.contents\<close>.
\<close>

definition boot_prepare :: "u32 list \<Rightarrow> nat \<Rightarrow> int \<Rightarrow> 'e ap_state \<Rightarrow> 'e ap_state" where
  "boot_prepare challenges i boot_result s =
     (let s1 = s\<lparr>receive := (receive s)\<lparr>rng_chal := challenges ! i\<rparr>\<rparr>
      in s1\<lparr>transmit := (transmit s1)\<lparr>contents :=
            write_u32 (if boot_result \<noteq> SUCCESS_RETURN then UINT32_MAX else 0)
              (contents (transmit s1))\<rparr>\<rparr>)"

text \<open>One iteration of the loop: the new \<open>boot_result\<close> and state.\<close>

definition boot_body ::
  "'e platform \<Rightarrow> u32 list \<Rightarrow> nat \<Rightarrow> int \<times> 'e ap_state \<Rightarrow> int \<times> 'e ap_state" where
  "boot_body P challenges i = (\<lambda>(boot_result, s).
     (let addr = ext_component_id_to_i2c_addr P (comp_id s i);
          (ret, s3) = issue_cmd P addr (boot_prepare challenges i boot_result s)
      in if ret \<noteq> SUCCESS_RETURN
         then (ERROR_RETURN,
               print_error ''Could not boot component 0x%08x\<newline>'' [ArgU32 (comp_id s3 i)] s3)
         else let comp_boot = read_u32 (contents (receive s3))
              in if comp_boot = 0
                 then (boot_result,
                       print_info ''0x%08x>%.64s\<newline>''
                         [ArgU32 (comp_id s3 i), ArgBytes (drop 4 (contents (receive s3)))] s3)
                 else (ERROR_RETURN,
                       print_error ''Could not boot component 0x%08x\<newline>''
                         [ArgU32 (comp_id s3 i)] s3)))"

text \<open>
  Nothing below the protocol engine writes \<open>flash_status\<close>; the loops re-read
  \<open>flash_status.component_cnt\<close> at every test, and this is why they end.
\<close>

lemma flash_status_emit: "flash_status (emit e s) = flash_status s"
  by (simp add: emit_def)

lemma ap_transmit_flash_status:
  "flash_status (snd (ap_transmit P addr s)) = flash_status s"
  by (simp add: ap_transmit_def emit_def Let_def split: prod.splits)

lemma ap_poll_recv_flash_status:
  "flash_status (snd (ap_poll_recv P addr skip s)) = flash_status s"
  by (simp add: ap_poll_recv_def emit_def Let_def split: prod.splits)

lemma issue_cmd_flash_status:
  "flash_status (snd (issue_cmd P addr s)) = flash_status s"
proof -
  obtain r1 s1 where t: "ap_transmit P addr s = (r1, s1)"
    by (cases "ap_transmit P addr s")
  obtain r2 s2 where p: "ap_poll_recv P addr False s1 = (r2, s2)"
    by (cases "ap_poll_recv P addr False s1")
  from t have "flash_status s1 = flash_status s"
    using ap_transmit_flash_status [of P addr s] by simp
  moreover from p have "flash_status s2 = flash_status s1"
    using ap_poll_recv_flash_status [of P addr False s1] by simp
  ultimately show ?thesis
    using t p by (simp add: issue_cmd_def)
qed

lemma boot_prepare_flash_status:
  "flash_status (boot_prepare ch i b s) = flash_status s"
  by (simp add: boot_prepare_def Let_def)

lemma boot_body_flash_status:
  "flash_status (snd (boot_body P ch i (b, s))) = flash_status s"
proof -
  let ?a = "ext_component_id_to_i2c_addr P (comp_id s i)"
  obtain r s3 where c: "issue_cmd P ?a (boot_prepare ch i b s) = (r, s3)"
    by (cases "issue_cmd P ?a (boot_prepare ch i b s)")
  then have "flash_status s3 = flash_status s"
    using issue_cmd_flash_status [of P ?a "boot_prepare ch i b s"]
    by (simp add: boot_prepare_flash_status)
  then show ?thesis
    using c by (simp add: boot_body_def Let_def print_error_def print_info_def flash_status_emit)
qed

function boot_loop ::
  "'e platform \<Rightarrow> u32 list \<Rightarrow> nat \<Rightarrow> int \<times> 'e ap_state \<Rightarrow> int \<times> 'e ap_state" where
  "boot_loop P challenges i (boot_result, s) =
     (if i < cnt s
      then boot_loop P challenges (i + 1) (boot_body P challenges i (boot_result, s))
      else (boot_result, s))"
  by pat_completeness auto
termination
proof (relation "measure (\<lambda>(P, ch, i, b, s). cnt s - i)")
  show "wf (measure (\<lambda>(P, ch, i, b, s). cnt s - i))" by simp
next
  fix P :: "'e platform" and challenges i boot_result and s :: "'e ap_state"
  assume lt: "i < cnt s"
  obtain b' s' where b: "boot_body P challenges i (boot_result, s) = (b', s')"
    by (cases "boot_body P challenges i (boot_result, s)")
  from b have "cnt s' = cnt s"
    using boot_body_flash_status [of P challenges i boot_result s] by (simp add: cnt_def)
  with lt b
  show "((P, challenges, i + 1, boot_body P challenges i (boot_result, s)),
         (P, challenges, i, boot_result, s))
        \<in> measure (\<lambda>(P, ch, i, b, s). cnt s - i)"
    by simp
qed

text \<open>\<^verbatim>\<open>boot_components(challenges, validate_result)\<close>.\<close>

definition boot_components ::
  "'e platform \<Rightarrow> u32 list \<Rightarrow> int \<Rightarrow> 'e ap_state \<Rightarrow> int \<times> 'e ap_state" where
  "boot_components P challenges validate_result s =
     boot_loop P challenges 0 (validate_result, s)"

subsection \<open>\<^verbatim>\<open>validate_components\<close>\<close>

text \<open>
  One iteration of the loop on the array \<open>challenges\<close>, the local \<open>validate_result\<close>
  and the state. Both failing handshake steps leave the iteration by \<^verbatim>\<open>continue\<close>, before
  the store to \<open>challenges[i]\<close>.
\<close>

definition validate_body ::
  "'e platform \<Rightarrow> nat \<Rightarrow> u32 list \<times> int \<times> 'e ap_state \<Rightarrow> u32 list \<times> int \<times> 'e ap_state" where
  "validate_body P i = (\<lambda>(challenges, validate_result, s).
     (let addr = ext_component_id_to_i2c_addr P (comp_id s i);
          s1 = s\<lparr>transmit := (transmit s)\<lparr>opcode := cmd_code COMPONENT_CMD_VALIDATE\<rparr>\<rparr>;
          (ret, s2) = issue_cmd P addr s1
      in if ret \<noteq> SUCCESS_RETURN
         then (challenges, ERROR_RETURN,
               print_error ''Component ID: 0x%08x invalid\<newline>'' [ArgU32 (comp_id s2 i)] s2)
         else let (ret2, s3) = issue_cmd P addr s2
              in if ret2 \<noteq> SUCCESS_RETURN
                 then (challenges, ERROR_RETURN,
                       print_error ''Component ID: 0x%08x invalid\<newline>''
                         [ArgU32 (comp_id s3 i)] s3)
                 else let id = read_u32 (contents (receive s3));
                          challenges' = challenges[i := rng_chal (receive s3)]
                      in if id \<noteq> comp_id s3 i
                         then (challenges', ERROR_RETURN,
                               print_error ''Component ID: 0x%08x invalid\<newline>''
                                 [ArgU32 (comp_id s3 i)] s3)
                         else (challenges', validate_result, s3)))"

lemma validate_body_flash_status:
  "flash_status (snd (snd (validate_body P i (ch, v, s)))) = flash_status s"
proof -
  let ?a = "ext_component_id_to_i2c_addr P (comp_id s i)"
  let ?s1 = "s\<lparr>transmit := (transmit s)\<lparr>opcode := cmd_code COMPONENT_CMD_VALIDATE\<rparr>\<rparr>"
  obtain r s2 where c: "issue_cmd P ?a ?s1 = (r, s2)"
    by (cases "issue_cmd P ?a ?s1")
  obtain r' s3 where d: "issue_cmd P ?a s2 = (r', s3)"
    by (cases "issue_cmd P ?a s2")
  from c have e: "flash_status s2 = flash_status s"
    using issue_cmd_flash_status [of P ?a ?s1] by simp
  from d have "flash_status s3 = flash_status s2"
    using issue_cmd_flash_status [of P ?a s2] by simp
  with e show ?thesis
    using c d by (simp add: validate_body_def Let_def print_error_def flash_status_emit)
qed

function validate_loop ::
  "'e platform \<Rightarrow> nat \<Rightarrow> u32 list \<times> int \<times> 'e ap_state \<Rightarrow> u32 list \<times> int \<times> 'e ap_state" where
  "validate_loop P i (challenges, validate_result, s) =
     (if i < cnt s
      then validate_loop P (i + 1) (validate_body P i (challenges, validate_result, s))
      else (challenges, validate_result, s))"
  by pat_completeness auto
termination
proof (relation "measure (\<lambda>(P, i, ch, v, s). cnt s - i)")
  show "wf (measure (\<lambda>(P, i, ch, v, s). cnt s - i))" by simp
next
  fix P :: "'e platform" and i challenges validate_result and s :: "'e ap_state"
  assume lt: "i < cnt s"
  obtain c' v' s' where b: "validate_body P i (challenges, validate_result, s) = (c', v', s')"
    by (cases "validate_body P i (challenges, validate_result, s)")
  from b have "cnt s' = cnt s"
    using validate_body_flash_status [of P i challenges validate_result s]
    by (simp add: cnt_def)
  with lt b
  show "((P, i + 1, validate_body P i (challenges, validate_result, s)),
         (P, i, challenges, validate_result, s))
        \<in> measure (\<lambda>(P, i, ch, v, s). cnt s - i)"
    by simp
qed

text \<open>
  \<^verbatim>\<open>validate_components(challenges)\<close>: the result, the array as the loop leaves it, and
  the state.
\<close>

definition validate_components ::
  "'e platform \<Rightarrow> u32 list \<Rightarrow> 'e ap_state \<Rightarrow> int \<times> u32 list \<times> 'e ap_state" where
  "validate_components P challenges s =
     (let (challenges', validate_result, s') = validate_loop P 0 (challenges, SUCCESS_RETURN, s)
      in (validate_result, challenges', s'))"

subsection \<open>\<^verbatim>\<open>attempt_boot\<close>\<close>

text \<open>
  \<open>comp_challenges\<close> is an uninitialised array of \<open>component_cnt\<close> words: its first
  contents are the parameter \<open>challenges0\<close>. \<^verbatim>\<open>boot()\<close> does not return; the flag of the
  result says whether it was entered.
\<close>

definition attempt_boot :: "'e platform \<Rightarrow> u32 list \<Rightarrow> 'e ap_state \<Rightarrow> bool \<times> 'e ap_state" where
  "attempt_boot P challenges0 s =
     (let (validate_result, comp_challenges, s1) = validate_components P challenges0 s;
          (boot_result, s2) = boot_components P comp_challenges validate_result s1
      in if boot_result \<noteq> SUCCESS_RETURN
         then (False, print_error ''Boot Failed\<newline>'' [] s2)
         else (True,
               reset_msg P
                 (print_success ''Boot\<newline>'' []
                   (print_info ''AP>%s\<newline>'' [ArgStr (AP_BOOT_MSG P)] s2))))"

subsection \<open>\<^verbatim>\<open>scan_components\<close>\<close>

function scan_print_loop :: "nat \<Rightarrow> 'e ap_state \<Rightarrow> 'e ap_state" where
  "scan_print_loop i s =
     (if i < cnt s
      then scan_print_loop (i + 1) (print_info ''P>0x%08x\<newline>'' [ArgU32 (comp_id s i)] s)
      else s)"
  by pat_completeness auto
termination
  by (relation "measure (\<lambda>(i, s). cnt s - i)")
    (auto simp: cnt_def print_info_def flash_status_emit)

text \<open>The body of the address loop; the three blacklisted addresses \<^verbatim>\<open>continue\<close>.\<close>

definition scan_body :: "'e platform \<Rightarrow> i2c_addr_t \<Rightarrow> 'e ap_state \<Rightarrow> 'e ap_state" where
  "scan_body P addr s =
     (if addr = 0x18 \<or> addr = 0x28 \<or> addr = 0x36 then s
      else let s1 = s\<lparr>transmit := (transmit s)\<lparr>opcode := cmd_code COMPONENT_CMD_SCAN\<rparr>\<rparr>;
               (result, s2) = issue_cmd P addr s1
           in if result = SUCCESS_RETURN
              then print_info ''F>0x%08x\<newline>'' [ArgU32 (read_u32 (contents (receive s2)))] s2
              else s2)"

function scan_loop :: "'e platform \<Rightarrow> i2c_addr_t \<Rightarrow> 'e ap_state \<Rightarrow> 'e ap_state" where
  "scan_loop P addr s =
     (if addr < 0x78 then scan_loop P (addr + 1) (scan_body P addr s) else s)"
  by pat_completeness auto
termination
proof (relation "measure (\<lambda>(P, addr, s). 0x78 - unat addr)")
  show "wf (measure (\<lambda>(P :: 'e platform, addr :: i2c_addr_t, s :: 'e ap_state). 0x78 - unat addr))"
    by simp
next
  fix P :: "'e platform" and addr :: i2c_addr_t and s :: "'e ap_state"
  assume "addr < 0x78"
  then have a: "unat addr < 0x78" by (simp add: word_less_nat_alt)
  then have "unat (addr + 1) = unat addr + 1" by (simp add: unat_word_ariths)
  with a show "((P, addr + 1, scan_body P addr s), (P, addr, s))
        \<in> measure (\<lambda>(P, addr, s). 0x78 - unat addr)"
    by simp
qed


definition scan_components :: "'e platform \<Rightarrow> 'e ap_state \<Rightarrow> int \<times> 'e ap_state" where
  "scan_components P s =
     (SUCCESS_RETURN, print_success ''List\<newline>'' [] (scan_loop P 0x8 (scan_print_loop 0 s)))"

section \<open>Post-boot interface\<close>

text \<open>
  \<^verbatim>\<open>secure_receive(address, buffer)\<close>: the return value, the caller's buffer and the state.
  The result of the middle \<^verbatim>\<open>ap_transmit\<close> is dropped.
\<close>

definition secure_receive ::
  "'e platform \<Rightarrow> i2c_addr_t \<Rightarrow> u8 list \<Rightarrow> 'e ap_state \<Rightarrow> int \<times> u8 list \<times> 'e ap_state" where
  "secure_receive P address buffer s =
     (let s0 = reset_msg P s;
          (result, s1) = ap_poll_recv P address True s0
      in if result \<noteq> SUCCESS_RETURN then (- 1, buffer, s1)
         else let (ignored, s2) = ap_transmit P address s1;
                  (result2, s3) = ap_poll_recv P address False s2
              in if result2 \<noteq> SUCCESS_RETURN then (- 1, buffer, s3)
                 else let len = contents (receive s3) ! 0
                      in if len > 64 then (- 1, buffer, s3)
                         else (uint len,
                               memcpy buffer (drop 1 (contents (receive s3))) (unat len), s3))"

section \<open>Console input (\<^verbatim>\<open>host_messaging.c\<close>)\<close>

text \<open>
  \<^verbatim>\<open>fgets(buf, len, stdin)\<close> on the pending input: at most \<open>len - 1\<close> characters, up to
  and with the first newline; \<open>None\<close> (a null result) when no input is left.
\<close>

definition fgets :: "nat \<Rightarrow> string \<Rightarrow> (string \<times> string) option" where
  "fgets len inp =
     (if inp = [] then None
      else let k = length (takeWhile (\<lambda>c. c \<noteq> CHR 0x0A) inp);
               m = min (len - 1) (k + 1)
           in Some (take m inp, drop m inp))"

text \<open>The string a character array holds: what stands before the first NUL.\<close>

definition c_str :: "string \<Rightarrow> string" where
  "c_str cs = takeWhile (\<lambda>c. c \<noteq> CHR 0x00) cs"

text \<open>
  \<^verbatim>\<open>recv_input(msg, buf, len)\<close>: the string left in \<open>buf\<close> and the state. On a null result
  of \<^verbatim>\<open>fgets\<close> the buffer keeps what it held. Otherwise the assignment
  \<^verbatim>\<open>buf[strlen(buf) - 1] = '\0'\<close> drops the last character of the string, a newline or not;
  where the string is empty the source writes in front of the buffer, and the model
  keeps the empty string.
\<close>

definition recv_input :: "string \<Rightarrow> string \<Rightarrow> nat \<Rightarrow> 'e ap_state \<Rightarrow> string \<times> 'e ap_state" where
  "recv_input msg buf len s =
     (let s1 = emit Ack (print_debug msg [] s)
      in case fgets len (stdin s1) of
           None \<Rightarrow> (buf, emit (Puts []) s1)
         | Some (line, rest) \<Rightarrow> (butlast (c_str line), emit (Puts []) (s1\<lparr>stdin := rest\<rparr>)))"

section \<open>Persistent roster\<close>

definition u64_bytes :: "u64 \<Rightarrow> u8 list" where
  "u64_bytes v = map (\<lambda>k. ucast (drop_bit (8 * k) v)) [0..<8]"

text \<open>The bytes of the packed \<^verbatim>\<open>flash_entry\<close>, and the region before the \<open>hash\<close> field.\<close>

definition header_ids :: "flash_entry \<Rightarrow> u8 list" where
  "header_ids fe =
     u32_bytes (flash_magic fe) @ u32_bytes (component_cnt fe)
       @ concat (map u32_bytes (component_ids fe))"

definition entry_bytes :: "flash_entry \<Rightarrow> u8 list" where
  "entry_bytes fe = header_ids fe @ hash fe @ iv fe"

definition sizeof_flash_entry :: "'e platform \<Rightarrow> nat" where
  "sizeof_flash_entry P = 4 + 4 + 4 * 32 + HASH_LEN P + IV_LEN P"

definition entry_of_bytes :: "'e platform \<Rightarrow> u8 list \<Rightarrow> flash_entry" where
  "entry_of_bytes P bs =
     \<lparr>flash_magic = read_u32 bs,
      component_cnt = read_u32 (drop 4 bs),
      component_ids = map (\<lambda>k. read_u32 (drop (8 + 4 * k) bs)) [0..<32],
      hash = take (HASH_LEN P) (drop 136 bs),
      iv = take (IV_LEN P) (drop (136 + HASH_LEN P) bs)\<rparr>"

text \<open>
  The flash driver (\<^verbatim>\<open>simple_flash.c\<close>) is outside the two source files. \<open>flash\<close> holds
  the bytes of the page at \<^verbatim>\<open>FLASH_ADDR\<close>: an erase sets them all, a write after an erase
  stores the given bytes at the start of the page, a read returns them.
\<close>

definition flash_simple_erase_page :: "'e ap_state \<Rightarrow> 'e ap_state" where
  "flash_simple_erase_page s =
     (emit FlashErase s)\<lparr>flash := replicate (length (flash s)) 0xFF\<rparr>"

definition flash_simple_write :: "u8 list \<Rightarrow> nat \<Rightarrow> 'e ap_state \<Rightarrow> 'e ap_state" where
  "flash_simple_write bytes n s =
     (emit (FlashWrite (take n bytes)) s)\<lparr>flash := memcpy (flash s) bytes n\<rparr>"

definition flash_simple_read :: "nat \<Rightarrow> 'e ap_state \<Rightarrow> u8 list" where
  "flash_simple_read n s = take n (flash s)"

text \<open>
  The block shared by \<^verbatim>\<open>init\<close> and \<^verbatim>\<open>attempt_replace\<close>: an encrypted copy of
  \<open>flash_status\<close> (the first \<^verbatim>\<open>FLASH_ENC_LEN\<close> bytes replaced by their ciphertext) is
  written to the erased page.
\<close>

definition encrypted_copy :: "'e platform \<Rightarrow> flash_entry \<Rightarrow> u8 list" where
  "encrypted_copy P fe =
     memcpy (entry_bytes fe)
       (ext_aes_encrypt P (take FLASH_ENC_LEN (entry_bytes fe)) (iv fe)) FLASH_ENC_LEN"

definition store_roster :: "'e platform \<Rightarrow> 'e ap_state \<Rightarrow> 'e ap_state" where
  "store_roster P s =
     flash_simple_write (encrypted_copy P (flash_status s)) (sizeof_flash_entry P)
       (flash_simple_erase_page s)"

text \<open>\<^verbatim>\<open>hash((uint8_t*)&flash_status, flash_status.hash, FLASH_ENC_LEN - 24)\<close>.\<close>

definition update_hash :: "'e platform \<Rightarrow> flash_entry \<Rightarrow> flash_entry" where
  "update_hash P fe = fe\<lparr>hash := ext_hash P (take (FLASH_ENC_LEN - 24) (entry_bytes fe))\<rparr>"

subsection \<open>\<^verbatim>\<open>init\<close>\<close>

text \<open>
  \<^verbatim>\<open>__enable_irq\<close> and \<^verbatim>\<open>flash_simple_init\<close> touch nothing of the state modelled here.
  The record read from flash is handled as its bytes until it is decrypted.
\<close>

definition init :: "'e platform \<Rightarrow> 'e ap_state \<Rightarrow> 'e ap_state" where
  "init P s =
     (let raw = flash_simple_read (sizeof_flash_entry P) s;
          decryptedFlash =
            ext_aes_decrypt P (take FLASH_ENC_LEN raw) (iv (entry_of_bytes P raw));
          raw1 = memcpy raw decryptedFlash FLASH_ENC_LEN;
          fs1 = entry_of_bytes P raw1;
          flashHash = ext_hash P (take (FLASH_ENC_LEN - 24) raw1);
          hash_result =
            (if take (HASH_LEN P) (hash fs1) = take (HASH_LEN P) flashHash
             then SUCCESS_RETURN else ERROR_RETURN);
          magic_result =
            (if flash_magic fs1 = FLASH_MAGIC P then SUCCESS_RETURN else ERROR_RETURN);
          s1 = s\<lparr>flash_status := fs1\<rparr>
      in if magic_result \<noteq> SUCCESS_RETURN \<or> hash_result \<noteq> SUCCESS_RETURN
         then let s2 = print_debug ''Failed to verify flash integrity, resetting flash!\<newline>'' [] s1;
                  n = unat (COMPONENT_CNT P);
                  fs2 = fs1\<lparr>flash_magic := FLASH_MAGIC P,
                            component_cnt := COMPONENT_CNT P,
                            component_ids :=
                              memcpy (component_ids fs1)
                                (take n (COMPONENT_IDS P @ replicate n 0)) n\<rparr>;
                  fs3 = update_hash P fs2;
                  (rand1, e1) = ext_rng_gen P (env s2);
                  (rand2, e2) = ext_rng_gen P e1;
                  fs4 = fs3\<lparr>iv := u64_bytes rand1 @ u64_bytes rand2 @ drop 16 (iv fs3)\<rparr>
              in emit BoardLinkInit (store_roster P (s2\<lparr>flash_status := fs4, env := e2\<rparr>))
         else emit BoardLinkInit s1)"

section \<open>Operator commands\<close>

text \<open>\<^verbatim>\<open>strncpy(dst, src, n)\<close> of a string without NUL: \<open>n\<close> bytes, padded with NUL.\<close>

definition strncpy :: "string \<Rightarrow> nat \<Rightarrow> string" where
  "strncpy src n = take n (src @ replicate n (CHR 0x00))"

text \<open>
  \<^verbatim>\<open>validate_token\<close>; \<open>buf0\<close> is what the uninitialised local buffer holds. The result is
  0 for an accepted token.
\<close>

definition validate_token :: "'e platform \<Rightarrow> string \<Rightarrow> 'e ap_state \<Rightarrow> int \<times> 'e ap_state" where
  "validate_token P buf0 s =
     (let (buf, s1) = recv_input ''Enter token: '' buf0 50 s;
          token = strncpy (AP_TOKEN P) 16;
          s2 = emit (TimeDelay 500000 1500000) s1
      in if length buf = 16 \<and> ext_secure_memcmp P buf token 16 = 0
         then (SUCCESS_RETURN, print_debug ''Token Accepted!\<newline>'' [] s2)
         else (ERROR_RETURN, print_error ''Invalid Token!\<newline>'' [] s2))"

subsection \<open>\<^verbatim>\<open>attempt_replace\<close>\<close>

text \<open>The first loop: is \<open>component_id_in\<close> in a slot below \<open>component_cnt\<close>?\<close>

function provisioned_from :: "u32 \<Rightarrow> nat \<Rightarrow> 'e ap_state \<Rightarrow> bool" where
  "provisioned_from component_id_in i s =
     (if i < cnt s
      then (if comp_id s i = component_id_in then True
            else provisioned_from component_id_in (i + 1) s)
      else False)"
  by pat_completeness auto
termination
  by (relation "measure (\<lambda>(c, i, s). cnt s - i)") auto

text \<open>The body of the \<^verbatim>\<open>if\<close> in the second loop, up to its \<^verbatim>\<open>return\<close>.\<close>

definition replace_slot :: "'e platform \<Rightarrow> u32 \<Rightarrow> u32 \<Rightarrow> nat \<Rightarrow> 'e ap_state \<Rightarrow> 'e ap_state" where
  "replace_slot P component_id_in component_id_out i s =
     (let fs = flash_status s;
          fs1 = fs\<lparr>component_ids := (component_ids fs)[i := component_id_in]\<rparr>;
          s1 = store_roster P (s\<lparr>flash_status := update_hash P fs1\<rparr>)
      in print_success ''Replace\<newline>'' []
           (print_debug ''Replaced 0x%08x with 0x%08x\<newline>''
              [ArgU32 component_id_out, ArgU32 component_id_in] s1))"

function swap_loop :: "'e platform \<Rightarrow> u32 \<Rightarrow> u32 \<Rightarrow> nat \<Rightarrow> 'e ap_state \<Rightarrow> 'e ap_state" where
  "swap_loop P component_id_in component_id_out i s =
     (if i < cnt s
      then (if comp_id s i = component_id_out
            then replace_slot P component_id_in component_id_out i s
            else swap_loop P component_id_in component_id_out (i + 1) s)
      else print_error
             (''Component 0x%08x is not provisioned for the system'' @ [CHR 0x0D, CHR 0x0A])
             [ArgU32 component_id_out] s)"
  by pat_completeness auto
termination
  by (relation "measure (\<lambda>(P, a, b, i, s). cnt s - i)") auto

text \<open>The equations of the loops are unfolded by hand, one iteration at a time.\<close>

declare boot_loop.simps [simp del] validate_loop.simps [simp del]
  scan_print_loop.simps [simp del] scan_loop.simps [simp del]
  provisioned_from.simps [simp del] swap_loop.simps [simp del]

text \<open>
  \<^verbatim>\<open>sscanf(buf, "%x", &id)\<close> is \<open>ext_sscanf_x\<close>: \<open>None\<close> when no conversion is made, and
  then \<open>id\<close> keeps its value. The return value of \<^verbatim>\<open>sscanf\<close> is not read.
\<close>

definition scan_id :: "'e platform \<Rightarrow> string \<Rightarrow> u32 \<Rightarrow> u32" where
  "scan_id P buf old = (case ext_sscanf_x P buf of None \<Rightarrow> old | Some v \<Rightarrow> v)"

text \<open>
  \<^verbatim>\<open>attempt_replace\<close>; \<open>tokbuf0\<close> and \<open>buf0\<close> are what the uninitialised buffers of
  \<^verbatim>\<open>validate_token\<close> and of this function hold.
\<close>

definition attempt_replace :: "'e platform \<Rightarrow> string \<Rightarrow> string \<Rightarrow> 'e ap_state \<Rightarrow> 'e ap_state" where
  "attempt_replace P tokbuf0 buf0 s =
     (let (tok, s1) = validate_token P tokbuf0 s
      in if tok \<noteq> 0
         then emit (LedOn LED3) (emit (MxcDelay 4000000) (emit (LedOff LED3) s1))
         else let component_id_in = 0;
                  component_id_out = 0;
                  (buf1, s2) = recv_input ''Component ID In: '' buf0 50 s1;
                  component_id_in = scan_id P buf1 component_id_in;
                  (buf2, s3) = recv_input ''Component ID Out: '' buf1 50 s2;
                  component_id_out = scan_id P buf2 component_id_out
              in if provisioned_from component_id_in 0 s3
                 then print_error ''Component 0x%08x is already provisioned!\<newline>''
                        [ArgU32 component_id_in] s3
                 else swap_loop P component_id_in component_id_out 0 s3)"

section \<open>A test platform\<close>

text \<open>
  Stand-ins for the external collaborators, used to run the model on concrete inputs.
  The bus is scripted: the state of the platform is a queue of results for
  \<^verbatim>\<open>ap_transmit\<close> (success once it is empty) and a queue of replies for \<^verbatim>\<open>ap_poll_recv\<close>
  (result, contents, challenge; failure once it is empty).
\<close>

type_synonym demo_env = "int list \<times> (int \<times> u8 list \<times> u32) list"

definition demo_transmit :: "i2c_addr_t \<Rightarrow> demo_env link \<Rightarrow> int \<times> demo_env link" where
  "demo_transmit addr = (\<lambda>((ts, rs), t, r).
     case ts of [] \<Rightarrow> (0, (([], rs), t, r)) | x # ts' \<Rightarrow> (x, ((ts', rs), t, r)))"

definition demo_poll_recv :: "i2c_addr_t \<Rightarrow> bool \<Rightarrow> demo_env link \<Rightarrow> int \<times> demo_env link" where
  "demo_poll_recv addr skip = (\<lambda>((ts, rs), t, r).
     case rs of [] \<Rightarrow> (- 1, ((ts, []), t, r))
     | (x, c, ch) # rs' \<Rightarrow> (x, ((ts, rs'), t, r\<lparr>contents := c, rng_chal := ch\<rparr>)))"

definition demo_reset_msg :: "demo_env link \<Rightarrow> demo_env link" where
  "demo_reset_msg = (\<lambda>(e, t, r).
     (e, \<lparr>opcode = 0, contents = replicate (length (contents t)) 0, rng_chal = 0\<rparr>,
         \<lparr>opcode = 0, contents = replicate (length (contents r)) 0, rng_chal = 0\<rparr>))"

definition hex_value :: "char \<Rightarrow> nat option" where
  "hex_value c =
     (let n = of_char c
      in if 48 \<le> n \<and> n \<le> 57 then Some (n - 48)
         else if 97 \<le> n \<and> n \<le> 102 then Some (n - 87)
         else if 65 \<le> n \<and> n \<le> 70 then Some (n - 55)
         else None)"

text \<open>A plain hexadecimal reader: the leading hexadecimal digits, none is a failure.\<close>

definition demo_sscanf_x :: "string \<Rightarrow> u32 option" where
  "demo_sscanf_x buf =
     (let ds = takeWhile (\<lambda>c. hex_value c \<noteq> None) buf
      in if ds = [] then None
         else Some (fold (\<lambda>c acc. 16 * acc + of_nat (the (hex_value c))) ds 0))"

definition demo :: "demo_env platform" where
  "demo = \<lparr>ext_ap_transmit = demo_transmit,
           ext_ap_poll_recv = demo_poll_recv,
           ext_reset_msg = demo_reset_msg,
           ext_component_id_to_i2c_addr = ucast,
           ext_hash = (\<lambda>bs. take 32 (rev bs @ replicate 32 0)),
           ext_aes_encrypt = (\<lambda>bs k. rev bs),
           ext_aes_decrypt = (\<lambda>bs k. rev bs),
           ext_rng_gen = (\<lambda>e. (0x1122334455667788, e)),
           ext_secure_memcmp = (\<lambda>a b n. if take n a = take n b then 0 else 1),
           ext_sscanf_x = demo_sscanf_x,
           HASH_LEN = 32,
           IV_LEN = 16,
           FLASH_MAGIC = 0xDEADBEEF,
           COMPONENT_CNT = 2,
           COMPONENT_IDS = [0x11111124, 0x11111125],
           AP_PIN = ''123456'',
           AP_TOKEN = ''0123456789abcdef'',
           AP_BOOT_MSG = ''Test boot message''\<rparr>"

definition demo_roster :: flash_entry where
  "demo_roster = \<lparr>flash_magic = 0xDEADBEEF, component_cnt = 2,
                  component_ids = [0x11111124, 0x11111125] @ replicate 30 0,
                  hash = replicate 32 0, iv = replicate 16 7\<rparr>"

definition demo_frame :: msg_t where
  "demo_frame = \<lparr>opcode = 0, contents = replicate 8 0, rng_chal = 0\<rparr>"

definition demo_state :: "demo_env \<Rightarrow> string \<Rightarrow> demo_env ap_state" where
  "demo_state e inp = \<lparr>flash_status = demo_roster, transmit = demo_frame, receive = demo_frame,
                       env = e, flash = replicate 184 0xFF, stdin = inp, trace = []\<rparr>"

section \<open>Layout of the flash record\<close>

lemma length_concat_u32: "length (concat (map u32_bytes xs)) = 4 * length xs"
  by (induction xs) (simp_all add: u32_bytes_def)

lemma length_header_ids: "length (header_ids fe) = 8 + 4 * length (component_ids fe)"
  by (simp add: header_ids_def length_concat_u32 u32_bytes_def)

text \<open>
  C4, as amended. With its 32 identifier slots the region before the \<open>hash\<close> field
  (magic, count, ids) is 4 + 4 + 4 * 32 = 136 bytes long. The encrypted span of
  \<^verbatim>\<open>FLASH_ENC_LEN\<close> = 160 bytes is that region and the 24 bytes that follow it in the
  record, and the stored hash is computed over exactly that region, the first
  \<^verbatim>\<open>FLASH_ENC_LEN - 24\<close> bytes.
\<close>

theorem flash_layout:
  assumes "length (component_ids fe) = 32"
  shows "length (header_ids fe) = 136
       \<and> FLASH_ENC_LEN = length (header_ids fe) + 24
       \<and> take FLASH_ENC_LEN (entry_bytes fe) = header_ids fe @ take 24 (hash fe @ iv fe)
       \<and> take (FLASH_ENC_LEN - 24) (entry_bytes fe) = header_ids fe
       \<and> hash (update_hash P fe) = ext_hash P (header_ids fe)"
  using assms by (simp add: length_header_ids FLASH_ENC_LEN_def entry_bytes_def update_hash_def)

theorem flash_layout_witness:
  "length (component_ids demo_roster) = 32
   \<and> length (header_ids demo_roster) = 136
   \<and> FLASH_ENC_LEN = length (header_ids demo_roster) + 24
   \<and> take (FLASH_ENC_LEN - 24) (entry_bytes demo_roster) = header_ids demo_roster
   \<and> hash (update_hash demo demo_roster) = ext_hash demo (header_ids demo_roster)"
proof -
  have l: "length (component_ids demo_roster) = 32" by (simp add: demo_roster_def)
  from flash_layout [OF l, of demo] l show ?thesis by simp
qed

text \<open>
  C4 as stated gives the region 140 bytes; on a record with 32 slots it has 136.
\<close>

theorem flash_layout_counterexample:
  "length (component_ids demo_roster) = 32 \<and> length (header_ids demo_roster) \<noteq> 140"
  by (simp add: length_header_ids demo_roster_def)

section \<open>Traces\<close>

lemma transmits_append: "transmits (xs @ ys) = transmits xs @ transmits ys"
  by (induction xs rule: transmits.induct) simp_all

lemma read_u32_write: "read_u32 (write_u32 v bs) = v"
  apply (simp add: read_u32_def write_u32_def u32_bytes_def)
  apply (rule bit_word_eqI)
  subgoal for n
    by (cases "8 \<le> n"; cases "16 \<le> n"; cases "24 \<le> n") (auto simp add: bit_simps)
  done

lemma emitted_append: "trace s' = trace s @ evs \<Longrightarrow> emitted s s' = evs"
  by (simp add: emitted_def)

lemma trace_ap_transmit:
  "trace (snd (ap_transmit P a s)) = trace s @ [Transmit a (transmit s) (receive s)]"
  by (simp add: ap_transmit_def emit_def Let_def split: prod.splits)

lemma trace_ap_poll_recv:
  "trace (snd (ap_poll_recv P a k s)) = trace s @ [PollRecv a k]"
  by (simp add: ap_poll_recv_def emit_def Let_def split: prod.splits)

lemma trace_issue_cmd:
  "\<exists>evs. trace (snd (issue_cmd P a s)) = trace s @ evs
         \<and> transmits evs = [(a, transmit s, receive s)]"
proof -
  obtain r1 s1 where t: "ap_transmit P a s = (r1, s1)"
    by (cases "ap_transmit P a s")
  obtain r2 s2 where p: "ap_poll_recv P a False s1 = (r2, s2)"
    by (cases "ap_poll_recv P a False s1")
  from t have t1: "trace s1 = trace s @ [Transmit a (transmit s) (receive s)]"
    using trace_ap_transmit [of P a s] by simp
  from p have t2: "trace s2 = trace s1 @ [PollRecv a False]"
    using trace_ap_poll_recv [of P a False s1] by simp
  show ?thesis
  proof (cases "r1 = SUCCESS_RETURN")
    case True
    with t p t1 t2 show ?thesis by (simp add: issue_cmd_def)
  next
    case False
    with t t1 show ?thesis by (simp add: issue_cmd_def)
  qed
qed

section \<open>The boot verdict\<close>

text \<open>The loop of \<^verbatim>\<open>boot_components\<close> after its first \<open>k\<close> iterations.\<close>

primrec boot_upto ::
  "'e platform \<Rightarrow> u32 list \<Rightarrow> nat \<Rightarrow> int \<times> 'e ap_state \<Rightarrow> int \<times> 'e ap_state" where
  "boot_upto P challenges 0 bs = bs"
| "boot_upto P challenges (Suc k) bs = boot_body P challenges k (boot_upto P challenges k bs)"

text \<open>What iteration \<open>i\<close> hands to \<^verbatim>\<open>ap_transmit\<close>: address and the two frames.\<close>

definition boot_sent ::
  "'e platform \<Rightarrow> u32 list \<Rightarrow> nat \<Rightarrow> int \<times> 'e ap_state \<Rightarrow> i2c_addr_t \<times> msg_t \<times> msg_t" where
  "boot_sent P challenges i = (\<lambda>(boot_result, s).
     (ext_component_id_to_i2c_addr P (comp_id s i),
      transmit (boot_prepare challenges i boot_result s),
      receive (boot_prepare challenges i boot_result s)))"

lemma trace_boot_body:
  "\<exists>evs. trace (snd (boot_body P ch i bs)) = trace (snd bs) @ evs
         \<and> transmits evs = [boot_sent P ch i bs]"
proof -
  obtain b s where bs: "bs = (b, s)" by (cases bs)
  let ?a = "ext_component_id_to_i2c_addr P (comp_id s i)"
  let ?p = "boot_prepare ch i b s"
  obtain r s3 where c: "issue_cmd P ?a ?p = (r, s3)"
    by (cases "issue_cmd P ?a ?p")
  from trace_issue_cmd [of P ?a ?p] c
  obtain evs where e: "trace s3 = trace ?p @ evs" "transmits evs = [(?a, transmit ?p, receive ?p)]"
    by auto
  have tp: "trace ?p = trace s" by (simp add: boot_prepare_def Let_def)
  show ?thesis
    using bs c e tp
    by (auto simp: boot_body_def boot_sent_def Let_def print_error_def print_info_def emit_def
        transmits_append)
qed

lemma boot_upto_flash_status:
  "flash_status (snd (boot_upto P ch k bs)) = flash_status (snd bs)"
proof (induction k)
  case 0
  show ?case by simp
next
  case (Suc k)
  obtain b s where u: "boot_upto P ch k bs = (b, s)" by (cases "boot_upto P ch k bs")
  with Suc boot_body_flash_status [of P ch k b s] show ?case by simp
qed

lemma trace_boot_upto:
  "\<exists>evs. trace (snd (boot_upto P ch k bs)) = trace (snd bs) @ evs
         \<and> transmits evs = map (\<lambda>j. boot_sent P ch j (boot_upto P ch j bs)) [0..<k]"
proof (induction k)
  case 0
  show ?case by simp
next
  case (Suc k)
  then obtain evs where e: "trace (snd (boot_upto P ch k bs)) = trace (snd bs) @ evs"
    "transmits evs = map (\<lambda>j. boot_sent P ch j (boot_upto P ch j bs)) [0..<k]"
    by auto
  from trace_boot_body [of P ch k "boot_upto P ch k bs"]
  obtain evs' where e': "trace (snd (boot_body P ch k (boot_upto P ch k bs)))
      = trace (snd (boot_upto P ch k bs)) @ evs'"
    "transmits evs' = [boot_sent P ch k (boot_upto P ch k bs)]"
    by auto
  from e e' have "trace (snd (boot_upto P ch (Suc k) bs)) = trace (snd bs) @ (evs @ evs')"
    by simp
  moreover from e e' have "transmits (evs @ evs')
      = map (\<lambda>j. boot_sent P ch j (boot_upto P ch j bs)) [0..<Suc k]"
    by (simp add: transmits_append)
  ultimately show ?case by blast
qed

lemma boot_loop_upto:
  "n = cnt (snd bs) - i \<Longrightarrow> i \<le> cnt (snd bs) \<Longrightarrow>
   boot_loop P ch i (boot_upto P ch i bs) = boot_upto P ch (cnt (snd bs)) bs"
proof (induction n arbitrary: i)
  case 0
  obtain b s where u: "boot_upto P ch i bs = (b, s)" by (cases "boot_upto P ch i bs")
  then have "cnt s = cnt (snd bs)"
    using boot_upto_flash_status [of P ch i bs] by (simp add: cnt_def)
  with 0 u show ?case by (simp add: boot_loop.simps [of P ch i b s])
next
  case (Suc n)
  obtain b s where u: "boot_upto P ch i bs = (b, s)" by (cases "boot_upto P ch i bs")
  then have c: "cnt s = cnt (snd bs)"
    using boot_upto_flash_status [of P ch i bs] by (simp add: cnt_def)
  from Suc.prems have lt: "i < cnt (snd bs)" by simp
  from Suc.prems have "n = cnt (snd bs) - Suc i" "Suc i \<le> cnt (snd bs)" by simp_all
  from Suc.IH [OF this] have "boot_loop P ch (Suc i) (boot_body P ch i (boot_upto P ch i bs))
      = boot_upto P ch (cnt (snd bs)) bs" by simp
  with u c lt show ?case by (simp add: boot_loop.simps [of P ch i b s])
qed

lemma boot_components_upto:
  "boot_components P ch vr s = boot_upto P ch (cnt s) (vr, s)"
  using boot_loop_upto [of "cnt s" "(vr, s)" 0 P ch] by (simp add: boot_components_def)


text \<open>
  Peer \<open>j\<close> booted: in iteration \<open>j\<close> the exchange succeeded and the reply starts with
  the word 0.
\<close>

definition peer_booted :: "'e platform \<Rightarrow> u32 list \<Rightarrow> int \<Rightarrow> 'e ap_state \<Rightarrow> nat \<Rightarrow> bool" where
  "peer_booted P challenges validate_result s j =
     (let (b, t) = boot_upto P challenges j (validate_result, s);
          (ret, t') = issue_cmd P (ext_component_id_to_i2c_addr P (comp_id t j))
                        (boot_prepare challenges j b t)
      in ret = SUCCESS_RETURN \<and> read_u32 (contents (receive t')) = 0)"

text \<open>
  The transmissions of a run of \<^verbatim>\<open>boot_components\<close>, and the first word of
  \<open>transmit.contents\<close> in each: the verdicts, in roster order.
\<close>

definition boot_transmits ::
  "'e platform \<Rightarrow> u32 list \<Rightarrow> int \<Rightarrow> 'e ap_state \<Rightarrow> (i2c_addr_t \<times> msg_t \<times> msg_t) list" where
  "boot_transmits P challenges validate_result s =
     transmits (emitted s (snd (boot_components P challenges validate_result s)))"

definition boot_verdicts :: "'e platform \<Rightarrow> u32 list \<Rightarrow> int \<Rightarrow> 'e ap_state \<Rightarrow> u32 list" where
  "boot_verdicts P challenges validate_result s =
     map (\<lambda>(a, t, r). read_u32 (contents t)) (boot_transmits P challenges validate_result s)"

lemma boot_transmits_eq:
  "boot_transmits P ch vr s = map (\<lambda>j. boot_sent P ch j (boot_upto P ch j (vr, s))) [0..<cnt s]"
  using trace_boot_upto [of P ch "cnt s" "(vr, s)"]
  by (auto simp: boot_transmits_def boot_components_upto emitted_append)

lemma boot_upto_result:
  "fst (boot_upto P ch k (vr, s)) = SUCCESS_RETURN
   \<longleftrightarrow> vr = SUCCESS_RETURN \<and> (\<forall>j<k. peer_booted P ch vr s j)"
proof (induction k)
  case 0
  show ?case by simp
next
  case (Suc k)
  obtain b t where u: "boot_upto P ch k (vr, s) = (b, t)" by (cases "boot_upto P ch k (vr, s)")
  obtain r t' where c: "issue_cmd P (ext_component_id_to_i2c_addr P (comp_id t k))
      (boot_prepare ch k b t) = (r, t')"
    by (cases "issue_cmd P (ext_component_id_to_i2c_addr P (comp_id t k)) (boot_prepare ch k b t)")
  have "fst (boot_body P ch k (b, t)) = SUCCESS_RETURN
      \<longleftrightarrow> b = SUCCESS_RETURN \<and> peer_booted P ch vr s k"
    using u c by (auto simp: boot_body_def peer_booted_def Let_def SUCCESS_RETURN_def ERROR_RETURN_def)
  with Suc u show ?case by (auto simp: less_Suc_eq)
qed

lemma boot_sent_verdict:
  "read_u32 (contents (fst (snd (boot_sent P ch i (b, s)))))
   = (if b = SUCCESS_RETURN then 0 else UINT32_MAX)"
  by (simp add: boot_sent_def boot_prepare_def Let_def read_u32_write)

lemma boot_sent_chal:
  "rng_chal (snd (snd (boot_sent P ch i (b, s)))) = ch ! i"
  by (simp add: boot_sent_def boot_prepare_def Let_def)

lemma boot_sent_addr:
  "fst (boot_sent P ch i (boot_upto P ch i (vr, s))) = ext_component_id_to_i2c_addr P (comp_id s i)"
proof -
  obtain b t where u: "boot_upto P ch i (vr, s) = (b, t)" by (cases "boot_upto P ch i (vr, s)")
  then have "flash_status t = flash_status s"
    using boot_upto_flash_status [of P ch i "(vr, s)"] by simp
  with u show ?thesis by (simp add: boot_sent_def comp_id_def)
qed

text \<open>A bus script where the first peer does not answer the boot command.\<close>

definition boot_fail_first :: "demo_env ap_state" where
  "boot_fail_first = demo_state ([], [(- 1, replicate 8 0, 0), (0, replicate 8 0, 5)]) []"

text \<open>A bus script where both peers answer the boot command and echo 0.\<close>

definition boot_all_ok :: "demo_env ap_state" where
  "boot_all_ok = demo_state ([], [(0, replicate 8 0, 3), (0, replicate 8 0, 5)]) []"

text \<open>
  C1, as amended. \<^verbatim>\<open>boot_components\<close> transmits once to every provisioned component, in
  roster order. The verdict in the first four bytes of \<open>transmit.contents\<close> for
  component \<open>i\<close> is the current boot result: 0 if \<open>validate_result\<close> is success and every
  earlier peer booted, \<^verbatim>\<open>UINT32_MAX\<close> otherwise. In particular, when validation failed,
  every peer is sent \<^verbatim>\<open>UINT32_MAX\<close>.
\<close>

theorem boot_verdict:
  assumes "roster_ok s"
  shows "map fst (boot_transmits P ch vr s)
     = map (\<lambda>i. ext_component_id_to_i2c_addr P (comp_id s i)) [0..<cnt s]
   \<and> (\<forall>i<cnt s. boot_verdicts P ch vr s ! i
         = (if vr = SUCCESS_RETURN \<and> (\<forall>j<i. peer_booted P ch vr s j) then 0 else UINT32_MAX))
   \<and> (vr \<noteq> SUCCESS_RETURN \<longrightarrow> boot_verdicts P ch vr s = replicate (cnt s) UINT32_MAX)"
proof -
  have v: "boot_verdicts P ch vr s ! i
      = (if vr = SUCCESS_RETURN \<and> (\<forall>j<i. peer_booted P ch vr s j) then 0 else UINT32_MAX)"
    if "i < cnt s" for i
  proof -
    obtain b t where u: "boot_upto P ch i (vr, s) = (b, t)" by (cases "boot_upto P ch i (vr, s)")
    from that have "boot_verdicts P ch vr s ! i
        = read_u32 (contents (fst (snd (boot_sent P ch i (boot_upto P ch i (vr, s))))))"
      by (simp add: boot_verdicts_def boot_transmits_eq split_beta)
    also have "\<dots> = (if b = SUCCESS_RETURN then 0 else UINT32_MAX)"
      using u by (simp add: boot_sent_verdict)
    finally show ?thesis
      using boot_upto_result [of P ch i vr s] u by simp
  qed
  have a: "map fst (boot_transmits P ch vr s)
      = map (\<lambda>i. ext_component_id_to_i2c_addr P (comp_id s i)) [0..<cnt s]"
    by (simp add: boot_transmits_eq boot_sent_addr)
  have l: "length (boot_verdicts P ch vr s) = cnt s"
    by (simp add: boot_verdicts_def boot_transmits_eq)
  have "boot_verdicts P ch vr s = replicate (cnt s) UINT32_MAX" if "vr \<noteq> SUCCESS_RETURN"
    using that v l by (auto intro!: nth_equalityI)
  with v a show ?thesis by blast
qed

theorem boot_verdict_witness:
  "roster_ok boot_all_ok
   \<and> cnt boot_all_ok = 2
   \<and> peer_booted demo [7, 9] SUCCESS_RETURN boot_all_ok 0
   \<and> boot_verdicts demo [7, 9] SUCCESS_RETURN boot_all_ok ! 1 = 0
   \<and> boot_verdicts demo [7, 9] ERROR_RETURN boot_all_ok = [UINT32_MAX, UINT32_MAX]"
proof -
  have r: "roster_ok boot_all_ok" by code_simp
  have c: "cnt boot_all_ok = 2" by code_simp
  have p: "peer_booted demo [7, 9] SUCCESS_RETURN boot_all_ok 0" by code_simp
  from boot_verdict [OF r, of demo "[7, 9]" SUCCESS_RETURN] c p
  have "boot_verdicts demo [7, 9] SUCCESS_RETURN boot_all_ok ! 1 = 0" by simp
  moreover from boot_verdict [OF r, of demo "[7, 9]" ERROR_RETURN] c
  have "boot_verdicts demo [7, 9] ERROR_RETURN boot_all_ok = [UINT32_MAX, UINT32_MAX]"
    by (simp add: SUCCESS_RETURN_def ERROR_RETURN_def numeral_2_eq_2)
  ultimately show ?thesis using r c p by simp
qed

text \<open>
  C1 as stated ties the verdict to \<open>validate_result\<close> alone. With a successful
  validation and a first peer that does not answer, the second peer is sent
  \<^verbatim>\<open>UINT32_MAX\<close>.
\<close>

theorem boot_verdict_counterexample:
  "roster_ok boot_fail_first
   \<and> (1::nat) < cnt boot_fail_first
   \<and> boot_verdicts demo [7, 9] SUCCESS_RETURN boot_fail_first ! 1 = UINT32_MAX
   \<and> UINT32_MAX \<noteq> 0"
  by code_simp

section \<open>Validation\<close>

text \<open>The loop of \<^verbatim>\<open>validate_components\<close> after its first \<open>k\<close> iterations.\<close>

primrec validate_upto ::
  "'e platform \<Rightarrow> nat \<Rightarrow> u32 list \<times> int \<times> 'e ap_state \<Rightarrow> u32 list \<times> int \<times> 'e ap_state" where
  "validate_upto P 0 x = x"
| "validate_upto P (Suc k) x = validate_body P k (validate_upto P k x)"

text \<open>
  The two handshake steps of iteration \<open>i\<close> from state \<open>s\<close>: the state after the second
  \<^verbatim>\<open>issue_cmd\<close> when both steps succeed, \<open>None\<close> when one of them fails.
\<close>

definition second_round :: "'e platform \<Rightarrow> nat \<Rightarrow> 'e ap_state \<Rightarrow> 'e ap_state option" where
  "second_round P i s =
     (let addr = ext_component_id_to_i2c_addr P (comp_id s i);
          s1 = s\<lparr>transmit := (transmit s)\<lparr>opcode := cmd_code COMPONENT_CMD_VALIDATE\<rparr>\<rparr>;
          (ret, s2) = issue_cmd P addr s1
      in if ret \<noteq> SUCCESS_RETURN then None
         else let (ret2, s3) = issue_cmd P addr s2
              in if ret2 \<noteq> SUCCESS_RETURN then None else Some s3)"

text \<open>The handshake with component \<open>i\<close> in a run of the loop from \<open>s\<close>.\<close>

definition handshake :: "'e platform \<Rightarrow> u32 list \<Rightarrow> 'e ap_state \<Rightarrow> nat \<Rightarrow> 'e ap_state option" where
  "handshake P challenges s i =
     second_round P i (snd (snd (validate_upto P i (challenges, SUCCESS_RETURN, s))))"

text \<open>
  Component \<open>i\<close> validates: no handshake step fails and the reply holds its roster ID.
\<close>

definition handshake_ok :: "'e platform \<Rightarrow> u32 list \<Rightarrow> 'e ap_state \<Rightarrow> nat \<Rightarrow> bool" where
  "handshake_ok P challenges s i =
     (case handshake P challenges s i of
        None \<Rightarrow> False
      | Some s3 \<Rightarrow> read_u32 (contents (receive s3)) = comp_id s i)"

lemma validate_body_cases:
  "validate_body P i (ch, v, s) =
     (case second_round P i s of
        None \<Rightarrow> (ch, ERROR_RETURN, snd (snd (validate_body P i (ch, v, s))))
      | Some s3 \<Rightarrow> (ch[i := rng_chal (receive s3)],
                    if read_u32 (contents (receive s3)) = comp_id s i then v else ERROR_RETURN,
                    snd (snd (validate_body P i (ch, v, s)))))"
proof -
  let ?a = "ext_component_id_to_i2c_addr P (comp_id s i)"
  let ?s1 = "s\<lparr>transmit := (transmit s)\<lparr>opcode := cmd_code COMPONENT_CMD_VALIDATE\<rparr>\<rparr>"
  obtain r s2 where c: "issue_cmd P ?a ?s1 = (r, s2)"
    by (cases "issue_cmd P ?a ?s1")
  obtain r' s3 where d: "issue_cmd P ?a s2 = (r', s3)"
    by (cases "issue_cmd P ?a s2")
  from c have e: "flash_status s2 = flash_status s"
    using issue_cmd_flash_status [of P ?a ?s1] by simp
  from d have "flash_status s3 = flash_status s2"
    using issue_cmd_flash_status [of P ?a s2] by simp
  with e have "comp_id s3 i = comp_id s i" by (simp add: comp_id_def)
  then show ?thesis
    using c d by (simp add: validate_body_def second_round_def Let_def)
qed

lemma validate_upto_flash_status:
  "flash_status (snd (snd (validate_upto P k x))) = flash_status (snd (snd x))"
proof (induction k)
  case 0
  show ?case by simp
next
  case (Suc k)
  obtain c v s where u: "validate_upto P k x = (c, v, s)" by (cases "validate_upto P k x")
  with Suc validate_body_flash_status [of P k c v s] show ?case by simp
qed

lemma validate_loop_upto:
  "n = cnt (snd (snd x)) - i \<Longrightarrow> i \<le> cnt (snd (snd x)) \<Longrightarrow>
   validate_loop P i (validate_upto P i x) = validate_upto P (cnt (snd (snd x))) x"
proof (induction n arbitrary: i)
  case 0
  obtain c v s where u: "validate_upto P i x = (c, v, s)" by (cases "validate_upto P i x")
  then have "cnt s = cnt (snd (snd x))"
    using validate_upto_flash_status [of P i x] by (simp add: cnt_def)
  with 0 u show ?case by (simp add: validate_loop.simps [of P i c v s])
next
  case (Suc n)
  obtain c v s where u: "validate_upto P i x = (c, v, s)" by (cases "validate_upto P i x")
  then have c: "cnt s = cnt (snd (snd x))"
    using validate_upto_flash_status [of P i x] by (simp add: cnt_def)
  from Suc.prems have lt: "i < cnt (snd (snd x))" by simp
  from Suc.prems have "n = cnt (snd (snd x)) - Suc i" "Suc i \<le> cnt (snd (snd x))" by simp_all
  from Suc.IH [OF this]
  have "validate_loop P (Suc i) (validate_body P i (validate_upto P i x))
      = validate_upto P (cnt (snd (snd x))) x" by simp
  with u c lt show ?case by (simp add: validate_loop.simps [of P i c v s])
qed

lemma validate_components_upto:
  "validate_components P ch s =
     (let (c, v, s') = validate_upto P (cnt s) (ch, SUCCESS_RETURN, s) in (v, c, s'))"
  using validate_loop_upto [of "cnt s" "(ch, SUCCESS_RETURN, s)" 0 P]
  by (simp add: validate_components_def)

lemma validate_upto_result:
  "fst (snd (validate_upto P k (ch, SUCCESS_RETURN, s))) =
     (if \<forall>i<k. handshake_ok P ch s i then SUCCESS_RETURN else ERROR_RETURN)"
proof (induction k)
  case 0
  show ?case by simp
next
  case (Suc k)
  obtain c v t where u: "validate_upto P k (ch, SUCCESS_RETURN, s) = (c, v, t)"
    by (cases "validate_upto P k (ch, SUCCESS_RETURN, s)")
  then have "flash_status t = flash_status s"
    using validate_upto_flash_status [of P k "(ch, SUCCESS_RETURN, s)"] by simp
  then have ci: "comp_id t k = comp_id s k" by (simp add: comp_id_def)
  have "fst (snd (validate_body P k (c, v, t))) =
      (if handshake_ok P ch s k then v else ERROR_RETURN)"
    using u ci
    by (subst validate_body_cases) (simp add: handshake_ok_def handshake_def split: option.splits)
  with Suc u show ?case by (auto simp: less_Suc_eq)
qed

lemma validate_upto_length:
  "length (fst (validate_upto P k (ch, v, s))) = length ch"
proof (induction k)
  case 0
  show ?case by simp
next
  case (Suc k)
  obtain c w t where u: "validate_upto P k (ch, v, s) = (c, w, t)"
    by (cases "validate_upto P k (ch, v, s)")
  have "length (fst (validate_body P k (c, w, t))) = length c"
    by (subst validate_body_cases) (simp split: option.splits)
  with Suc u show ?case by simp
qed

lemma validate_upto_challenges:
  assumes "i < length ch"
  shows "fst (validate_upto P k (ch, SUCCESS_RETURN, s)) ! i =
     (if i < k then (case handshake P ch s i of None \<Rightarrow> ch ! i | Some s3 \<Rightarrow> rng_chal (receive s3))
      else ch ! i)"
proof (induction k)
  case 0
  show ?case by simp
next
  case (Suc k)
  obtain c v t where u: "validate_upto P k (ch, SUCCESS_RETURN, s) = (c, v, t)"
    by (cases "validate_upto P k (ch, SUCCESS_RETURN, s)")
  then have l: "length c = length ch"
    using validate_upto_length [of P k ch SUCCESS_RETURN s] by simp
  have b: "fst (validate_body P k (c, v, t)) ! i =
      (if i = k then (case second_round P k t of None \<Rightarrow> c ! i | Some s3 \<Rightarrow> rng_chal (receive s3))
       else c ! i)"
    using assms l by (subst validate_body_cases) (simp split: option.splits)
  show ?case
  proof (cases "i = k")
    case True
    with Suc u b show ?thesis by (simp add: handshake_def split: option.splits)
  next
    case False
    with Suc u b show ?thesis by (auto simp: less_Suc_eq)
  qed
qed

lemma trace_issue_cmd_first:
  "\<exists>evs. trace (snd (issue_cmd P a s)) = trace s @ Transmit a (transmit s) (receive s) # evs"
proof -
  obtain r1 s1 where t: "ap_transmit P a s = (r1, s1)"
    by (cases "ap_transmit P a s")
  obtain r2 s2 where p: "ap_poll_recv P a False s1 = (r2, s2)"
    by (cases "ap_poll_recv P a False s1")
  from t have t1: "trace s1 = trace s @ [Transmit a (transmit s) (receive s)]"
    using trace_ap_transmit [of P a s] by simp
  from p have t2: "trace s2 = trace s1 @ [PollRecv a False]"
    using trace_ap_poll_recv [of P a False s1] by simp
  show ?thesis
  proof (cases "r1 = SUCCESS_RETURN")
    case True
    with t p t1 t2 show ?thesis by (simp add: issue_cmd_def)
  next
    case False
    with t t1 show ?thesis by (simp add: issue_cmd_def)
  qed
qed

text \<open>The state before iteration \<open>k\<close>, and the events that iteration \<open>i\<close> adds.\<close>

definition validate_state :: "'e platform \<Rightarrow> u32 list \<Rightarrow> 'e ap_state \<Rightarrow> nat \<Rightarrow> 'e ap_state" where
  "validate_state P challenges s k =
     snd (snd (validate_upto P k (challenges, SUCCESS_RETURN, s)))"

definition validate_events :: "'e platform \<Rightarrow> u32 list \<Rightarrow> 'e ap_state \<Rightarrow> nat \<Rightarrow> event list" where
  "validate_events P challenges s i =
     emitted (validate_state P challenges s i) (validate_state P challenges s (Suc i))"

lemma trace_validate_body:
  "\<exists>t r evs. trace (snd (snd (validate_body P i (c, v, s))))
       = trace s @ Transmit (ext_component_id_to_i2c_addr P (comp_id s i)) t r # evs
     \<and> opcode t = cmd_code COMPONENT_CMD_VALIDATE"
proof -
  let ?a = "ext_component_id_to_i2c_addr P (comp_id s i)"
  let ?s1 = "s\<lparr>transmit := (transmit s)\<lparr>opcode := cmd_code COMPONENT_CMD_VALIDATE\<rparr>\<rparr>"
  obtain r s2 where c: "issue_cmd P ?a ?s1 = (r, s2)"
    by (cases "issue_cmd P ?a ?s1")
  obtain r' s3 where d: "issue_cmd P ?a s2 = (r', s3)"
    by (cases "issue_cmd P ?a s2")
  from trace_issue_cmd_first [of P ?a ?s1] c
  obtain e1 where e1: "trace s2 = trace s @ Transmit ?a (transmit ?s1) (receive ?s1) # e1"
    by auto
  from trace_issue_cmd_first [of P ?a s2] d
  obtain e2 where e2: "trace s3 = trace s2 @ Transmit ?a (transmit s2) (receive s2) # e2"
    by auto
  have o: "opcode (transmit ?s1) = cmd_code COMPONENT_CMD_VALIDATE" by simp
  show ?thesis
  proof (cases "r = SUCCESS_RETURN")
    case False
    with c e1 o show ?thesis
      by (simp add: validate_body_def Let_def print_error_def emit_def)
  next
    case True
    with c d e1 e2 o show ?thesis
      by (simp add: validate_body_def Let_def print_error_def emit_def)
  qed
qed

lemma validate_events_first:
  "\<exists>t r evs. validate_events P ch s i
       = Transmit (ext_component_id_to_i2c_addr P (comp_id s i)) t r # evs
     \<and> opcode t = cmd_code COMPONENT_CMD_VALIDATE"
proof -
  obtain c v t where u: "validate_upto P i (ch, SUCCESS_RETURN, s) = (c, v, t)"
    by (cases "validate_upto P i (ch, SUCCESS_RETURN, s)")
  then have "flash_status t = flash_status s"
    using validate_upto_flash_status [of P i "(ch, SUCCESS_RETURN, s)"] by simp
  then have ci: "comp_id t i = comp_id s i" by (simp add: comp_id_def)
  from trace_validate_body [of P i c v t] ci u
  show ?thesis
    by (auto simp: validate_events_def validate_state_def emitted_def)
qed

lemma trace_validate_state:
  "trace (validate_state P ch s k) = trace s @ concat (map (validate_events P ch s) [0..<k])"
proof (induction k)
  case 0
  show ?case by (simp add: validate_state_def)
next
  case (Suc k)
  obtain c v t where u: "validate_upto P k (ch, SUCCESS_RETURN, s) = (c, v, t)"
    by (cases "validate_upto P k (ch, SUCCESS_RETURN, s)")
  from trace_validate_body [of P k c v t] u
  obtain e where e: "trace (validate_state P ch s (Suc k)) = trace (validate_state P ch s k) @ e"
    by (auto simp: validate_state_def)
  then have "validate_events P ch s k = e"
    by (simp add: validate_events_def emitted_def)
  with e Suc show ?case by simp
qed

text \<open>
  A bus script for two components: the first answers the first handshake step
  (challenge 0x21) and fails the second, the second answers both (challenge 0x22) and
  returns its ID.
\<close>

definition validate_second_fails :: "demo_env ap_state" where
  "validate_second_fails =
     demo_state ([], [(0, replicate 8 0, 0x21), (- 1, replicate 8 0, 0x21),
                      (0, replicate 8 0, 0x22), (0, [0x25, 0x11, 0x11, 0x11, 0, 0, 0, 0], 0x22)]) []"

text \<open>
  C6. The trace of \<^verbatim>\<open>validate_components\<close> is one block of events for every index below
  \<open>component_cnt\<close>, in order, whatever happened at earlier indices, and each block starts
  with a VALIDATE transmission to that component: no short-circuit. The result is
  Error exactly when some component had a failing handshake step or a reply ID
  different from its roster ID, and Success otherwise.
\<close>

theorem validate_no_short_circuit:
  assumes "roster_ok s"
  shows "emitted s (snd (snd (validate_components P ch s)))
     = concat (map (validate_events P ch s) [0..<cnt s])
   \<and> (\<forall>i<cnt s. \<exists>t r evs. validate_events P ch s i
          = Transmit (ext_component_id_to_i2c_addr P (comp_id s i)) t r # evs
        \<and> opcode t = cmd_code COMPONENT_CMD_VALIDATE)
   \<and> (fst (validate_components P ch s) = ERROR_RETURN
        \<longleftrightarrow> (\<exists>i<cnt s. \<not> handshake_ok P ch s i))
   \<and> (fst (validate_components P ch s) = SUCCESS_RETURN
        \<longleftrightarrow> (\<forall>i<cnt s. handshake_ok P ch s i))"
proof -
  have s': "snd (snd (validate_components P ch s)) = validate_state P ch s (cnt s)"
    by (simp add: validate_components_upto validate_state_def split_beta)
  have r: "fst (validate_components P ch s)
      = (if \<forall>i<cnt s. handshake_ok P ch s i then SUCCESS_RETURN else ERROR_RETURN)"
    using validate_upto_result [of P "cnt s" ch s]
    by (simp add: validate_components_upto split_beta)
  have "emitted s (snd (snd (validate_components P ch s)))
      = concat (map (validate_events P ch s) [0..<cnt s])"
    using trace_validate_state [of P ch s "cnt s"] s' by (simp add: emitted_def)
  moreover have "\<forall>i<cnt s. \<exists>t r evs. validate_events P ch s i
          = Transmit (ext_component_id_to_i2c_addr P (comp_id s i)) t r # evs
        \<and> opcode t = cmd_code COMPONENT_CMD_VALIDATE"
    using validate_events_first [of P ch s] by blast
  moreover from r have "fst (validate_components P ch s) = ERROR_RETURN
        \<longleftrightarrow> (\<exists>i<cnt s. \<not> handshake_ok P ch s i)"
    by (auto simp: SUCCESS_RETURN_def ERROR_RETURN_def)
  moreover from r have "fst (validate_components P ch s) = SUCCESS_RETURN
        \<longleftrightarrow> (\<forall>i<cnt s. handshake_ok P ch s i)"
    by (auto simp: SUCCESS_RETURN_def ERROR_RETURN_def)
  ultimately show ?thesis by blast
qed

theorem validate_no_short_circuit_witness:
  "roster_ok validate_second_fails
   \<and> cnt validate_second_fails = 2
   \<and> \<not> handshake_ok demo [7, 9] validate_second_fails 0
   \<and> handshake_ok demo [7, 9] validate_second_fails 1
   \<and> fst (validate_components demo [7, 9] validate_second_fails) = ERROR_RETURN
   \<and> validate_events demo [7, 9] validate_second_fails 1 \<noteq> []"
proof -
  have r: "roster_ok validate_second_fails" by code_simp
  have c: "cnt validate_second_fails = 2" by code_simp
  have h0: "\<not> handshake_ok demo [7, 9] validate_second_fails 0" by code_simp
  have h1: "handshake_ok demo [7, 9] validate_second_fails 1" by code_simp
  have lt: "(0::nat) < 2" "(1::nat) < 2" by simp_all
  from validate_no_short_circuit [OF r, of demo "[7, 9]"] c h0 lt(1)
  have "fst (validate_components demo [7, 9] validate_second_fails) = ERROR_RETURN"
    by metis
  moreover from validate_no_short_circuit [OF r, of demo "[7, 9]"] c lt(2)
  have "validate_events demo [7, 9] validate_second_fails 1 \<noteq> []"
    by (metis list.distinct(1))
  ultimately show ?thesis using r c h0 h1 by simp
qed

section \<open>Saved challenges\<close>

text \<open>
  C2, as amended. \<^verbatim>\<open>boot_components\<close> puts \<open>challenges[i]\<close> into \<open>receive.rng_chal\<close>
  before it transmits to component \<open>i\<close>, for every index. \<^verbatim>\<open>validate_components\<close> stores
  \<open>receive.rng_chal\<close> into \<open>challenges[i]\<close> after the second handshake step when both
  steps with component \<open>i\<close> succeed; when a step fails it leaves \<open>challenges[i]\<close> as it
  was on entry.
\<close>

theorem challenges_saved_and_restored:
  assumes "roster_ok s"
    and "length ch = cnt s" and "validate_components P ch s = (vr, ch', s1)"
  shows "(\<forall>i<cnt s. ch' ! i =
            (case handshake P ch s i of
               None \<Rightarrow> ch ! i
             | Some s3 \<Rightarrow> rng_chal (receive s3)))
       \<and> map (\<lambda>(a, t, r). rng_chal r) (boot_transmits P ch' vr s1) = ch'"
proof -
  from assms(3) have c': "ch' = fst (validate_upto P (cnt s) (ch, SUCCESS_RETURN, s))"
    and s1: "s1 = snd (snd (validate_upto P (cnt s) (ch, SUCCESS_RETURN, s)))"
    by (auto simp: validate_components_upto split_beta)
  have l: "length ch' = cnt s"
    using c' assms(2) validate_upto_length [of P "cnt s" ch SUCCESS_RETURN s] by simp
  have n: "cnt s1 = cnt s"
    using s1 validate_upto_flash_status [of P "cnt s" "(ch, SUCCESS_RETURN, s)"]
    by (simp add: cnt_def)
  have a: "\<forall>i<cnt s. ch' ! i =
            (case handshake P ch s i of
               None \<Rightarrow> ch ! i
             | Some s3 \<Rightarrow> rng_chal (receive s3))"
    using c' assms(2) validate_upto_challenges [of _ ch P "cnt s" s] by simp
  have "map (\<lambda>(a, t, r). rng_chal r) (boot_transmits P ch' vr s1) = map (\<lambda>i. ch' ! i) [0..<cnt s]"
    using n by (simp add: boot_transmits_eq split_beta boot_sent_def boot_prepare_def Let_def)
  also have "\<dots> = ch'"
    unfolding l [symmetric] by (rule map_nth)
  finally show ?thesis using a by simp
qed

theorem challenges_saved_and_restored_witness:
  "roster_ok validate_second_fails
   \<and> length [7, 9 :: u32] = cnt validate_second_fails
   \<and> validate_components demo [7, 9] validate_second_fails
       = (ERROR_RETURN, [7, 0x22], snd (snd (validate_components demo [7, 9] validate_second_fails)))
   \<and> map (\<lambda>(a, t, r). rng_chal r)
        (boot_transmits demo [7, 0x22] ERROR_RETURN
           (snd (snd (validate_components demo [7, 9] validate_second_fails)))) = [7, 0x22]"
proof -
  have r: "roster_ok validate_second_fails" by code_simp
  have l: "length [7, 9 :: u32] = cnt validate_second_fails" by code_simp
  have v: "validate_components demo [7, 9] validate_second_fails
       = (ERROR_RETURN, [7, 0x22], snd (snd (validate_components demo [7, 9] validate_second_fails)))"
    by code_simp
  from challenges_saved_and_restored [OF r l v] r l v show ?thesis by simp
qed

text \<open>
  C2 as stated has \<open>challenges[i]\<close> written for every index. The first component
  answers with challenge 0x21 and then fails the second step: \<open>challenges[0]\<close> keeps the
  value 7 it had on entry.
\<close>

theorem challenges_saved_counterexample:
  "roster_ok validate_second_fails
   \<and> (0::nat) < cnt validate_second_fails
   \<and> handshake demo [7, 9] validate_second_fails 0 = None
   \<and> rng_chal (receive (validate_state demo [7, 9] validate_second_fails 1)) = 0x21
   \<and> fst (snd (validate_components demo [7, 9] validate_second_fails)) ! 0 = 7
   \<and> (7 :: u32) \<noteq> 0x21"
  by code_simp

section \<open>Scanning the bus\<close>

text \<open>
  The bus addresses from \<open>k\<close> up to 0x77, without the three blacklisted ones, in
  increasing order.
\<close>

definition scan_addrs :: "nat \<Rightarrow> i2c_addr_t list" where
  "scan_addrs k = filter (\<lambda>a. a \<noteq> 0x18 \<and> a \<noteq> 0x28 \<and> a \<noteq> 0x36) (map of_nat [k..<0x78])"

text \<open>The \<^verbatim>\<open>P>\<close> lines of the roster slots from \<open>k\<close> on.\<close>

definition roster_lines :: "'e ap_state \<Rightarrow> nat \<Rightarrow> event list" where
  "roster_lines s k =
     map (\<lambda>i. Print Info ''P>0x%08x\<newline>'' [ArgU32 (comp_id s i)]) [k..<cnt s]"

lemma scan_print_loop_eq:
  "scan_print_loop i s = s\<lparr>trace := trace s @ roster_lines s i\<rparr>"
proof (induction i s rule: scan_print_loop.induct)
  case (1 i s)
  show ?case
  proof (cases "i < cnt s")
    case False
    then show ?thesis by (simp add: roster_lines_def scan_print_loop.simps [of i s])
  next
    case True
    let ?s' = "print_info ''P>0x%08x\<newline>'' [ArgU32 (comp_id s i)] s"
    have r: "roster_lines ?s' (i + 1) = roster_lines s (Suc i)"
      by (simp add: roster_lines_def cnt_def comp_id_def print_info_def emit_def)
    have u: "roster_lines s i = Print Info ''P>0x%08x\<newline>'' [ArgU32 (comp_id s i)]
        # roster_lines s (Suc i)"
      using True by (simp add: roster_lines_def upt_conv_Cons)
    have "scan_print_loop i s = scan_print_loop (i + 1) ?s'"
      using True by (simp add: scan_print_loop.simps [of i s])
    also have "\<dots> = ?s'\<lparr>trace := trace ?s' @ roster_lines ?s' (i + 1)\<rparr>"
      using 1 [OF True] .
    also have "\<dots> = s\<lparr>trace := trace s @ roster_lines s i\<rparr>"
      unfolding r u by (simp add: print_info_def emit_def)
    finally show ?thesis .
  qed
qed

lemma scan_addrs_step:
  assumes "a < (0x78 :: i2c_addr_t)"
  shows "scan_addrs (unat a) =
     (if a = 0x18 \<or> a = 0x28 \<or> a = 0x36 then [] else [a]) @ scan_addrs (unat (a + 1))"
proof -
  from assms have a: "unat a < 0x78" by (simp add: word_less_nat_alt)
  then have s: "unat (a + 1) = Suc (unat a)" by (simp add: unat_word_ariths)
  from a have "[unat a..<0x78] = unat a # [Suc (unat a)..<0x78]"
    by (simp add: upt_conv_Cons)
  then show ?thesis
    unfolding scan_addrs_def s by simp
qed

lemma scan_addrs_end: "\<not> a < (0x78 :: i2c_addr_t) \<Longrightarrow> scan_addrs (unat a) = []"
  by (simp add: scan_addrs_def word_less_nat_alt)

text \<open>A transmission whose frame carries the SCAN opcode.\<close>

definition is_scan :: "i2c_addr_t \<times> msg_t \<times> msg_t \<Rightarrow> bool" where
  "is_scan = (\<lambda>(a, t, r). opcode t = cmd_code COMPONENT_CMD_SCAN)"

lemma trace_scan_body:
  "\<exists>evs. trace (scan_body P a s) = trace s @ evs
     \<and> map fst (transmits evs) = (if a = 0x18 \<or> a = 0x28 \<or> a = 0x36 then [] else [a])
     \<and> list_all is_scan (transmits evs)"
proof (cases "a = 0x18 \<or> a = 0x28 \<or> a = 0x36")
  case True
  then show ?thesis by (auto simp: scan_body_def)
next
  case False
  let ?s1 = "s\<lparr>transmit := (transmit s)\<lparr>opcode := cmd_code COMPONENT_CMD_SCAN\<rparr>\<rparr>"
  obtain r s2 where c: "issue_cmd P a ?s1 = (r, s2)" by (cases "issue_cmd P a ?s1")
  from trace_issue_cmd [of P a ?s1] c
  obtain evs where e: "trace s2 = trace s @ evs" "transmits evs = [(a, transmit ?s1, receive ?s1)]"
    by auto
  show ?thesis
  proof (cases "r = SUCCESS_RETURN")
    case True
    let ?e = "evs @ [Print Info ''F>0x%08x\<newline>'' [ArgU32 (read_u32 (contents (receive s2)))]]"
    from True False c e have "trace (scan_body P a s) = trace s @ ?e"
      by (simp add: scan_body_def print_info_def emit_def)
    moreover from e False have "map fst (transmits ?e) = (if a = 0x18 \<or> a = 0x28 \<or> a = 0x36 then [] else [a])"
      "list_all is_scan (transmits ?e)"
      by (simp_all add: transmits_append is_scan_def)
    ultimately show ?thesis by blast
  next
    case r: False
    from r False c e have "trace (scan_body P a s) = trace s @ evs"
      by (simp add: scan_body_def)
    moreover from e False have "map fst (transmits evs) = (if a = 0x18 \<or> a = 0x28 \<or> a = 0x36 then [] else [a])"
      "list_all is_scan (transmits evs)"
      by (simp_all add: is_scan_def)
    ultimately show ?thesis by blast
  qed
qed

lemma trace_scan_loop:
  "\<exists>evs. trace (scan_loop P a s) = trace s @ evs
     \<and> map fst (transmits evs) = scan_addrs (unat a)
     \<and> list_all is_scan (transmits evs)"
proof (induction P a s rule: scan_loop.induct)
  case (1 P a s)
  show ?case
  proof (cases "a < 0x78")
    case False
    then show ?thesis by (simp add: scan_addrs_end scan_loop.simps [of P a s])
  next
    case True
    from trace_scan_body [of P a s]
    obtain e1 where e1: "trace (scan_body P a s) = trace s @ e1"
      "map fst (transmits e1) = (if a = 0x18 \<or> a = 0x28 \<or> a = 0x36 then [] else [a])"
      "list_all is_scan (transmits e1)"
      by blast
    from 1 [OF True]
    obtain e2 where e2: "trace (scan_loop P (a + 1) (scan_body P a s)) = trace (scan_body P a s) @ e2"
      "map fst (transmits e2) = scan_addrs (unat (a + 1))"
      "list_all is_scan (transmits e2)"
      by blast
    have l: "scan_loop P a s = scan_loop P (a + 1) (scan_body P a s)"
      using True by (simp add: scan_loop.simps [of P a s])
    have "trace (scan_loop P a s) = trace s @ (e1 @ e2)"
      unfolding l using e1(1) e2(1) by simp
    moreover have "map fst (transmits (e1 @ e2)) = scan_addrs (unat a)"
      using e1(2) e2(2) scan_addrs_step [OF True] by (simp add: transmits_append)
    moreover have "list_all is_scan (transmits (e1 @ e2))"
      using e1(3) e2(3) by (simp add: transmits_append)
    ultimately show ?thesis by blast
  qed
qed

lemma set_scan_addrs:
  "set (scan_addrs 8) = {a. 0x08 \<le> a \<and> a < 0x78} - {0x18, 0x28, 0x36}"
proof -
  have i: "set (map of_nat [8..<0x78]) = (of_nat ` {8..<0x78} :: i2c_addr_t set)"
    by (simp only: set_map set_upt)
  have "(of_nat ` {8..<0x78} :: i2c_addr_t set) = {a. 0x08 \<le> a \<and> a < 0x78}"
  proof (rule set_eqI, rule iffI)
    fix a :: i2c_addr_t
    assume "a \<in> of_nat ` {8..<0x78}"
    then obtain n where n: "a = of_nat n" "8 \<le> n" "n < 0x78" by auto
    then have "unat a = n" by (simp add: unat_of_nat)
    with n show "a \<in> {a. 0x08 \<le> a \<and> a < 0x78}"
      by (simp add: word_le_nat_alt word_less_nat_alt)
  next
    fix a :: i2c_addr_t
    assume "a \<in> {a. 0x08 \<le> a \<and> a < 0x78}"
    then have "unat a \<in> {8..<0x78}"
      by (simp add: word_le_nat_alt word_less_nat_alt)
    moreover have "a = of_nat (unat a)" by simp
    ultimately show "a \<in> of_nat ` {8..<0x78}"
      by (rule rev_image_eqI)
  qed
  with i have "set (map of_nat [8..<0x78]) = {a :: i2c_addr_t. 0x08 \<le> a \<and> a < 0x78}"
    by simp
  moreover have "set (scan_addrs 8)
      = {a \<in> set (map of_nat [8..<0x78]). a \<noteq> 0x18 \<and> a \<noteq> 0x28 \<and> a \<noteq> 0x36}"
    by (simp only: scan_addrs_def set_filter)
  ultimately show ?thesis by blast
qed

text \<open>
  C5. \<^verbatim>\<open>scan_components\<close> returns success. Its trace is the \<^verbatim>\<open>P>\<close> lines of the
  provisioned IDs, then the events of the scan, then the \<open>List\<close> success marker. The scan
  transmits, with the SCAN opcode, once to each address of \<open>scan_addrs 8\<close>, in
  order: the addresses of [0x08, 0x78) other than 0x18, 0x28 and 0x36.
\<close>

theorem scan_components_trace:
  assumes "roster_ok s"
  shows "fst (scan_components P s) = SUCCESS_RETURN
   \<and> (\<exists>evs. emitted s (snd (scan_components P s))
              = roster_lines s 0 @ evs @ [Print Success ''List\<newline>'' []]
           \<and> map fst (transmits evs) = scan_addrs 8
           \<and> list_all is_scan (transmits evs))
   \<and> set (scan_addrs 8) = {a. 0x08 \<le> a \<and> a < 0x78} - {0x18, 0x28, 0x36}"
proof -
  let ?s1 = "scan_print_loop 0 s"
  from trace_scan_loop [of P 8 ?s1]
  obtain evs where e: "trace (scan_loop P 8 ?s1) = trace ?s1 @ evs"
    "map fst (transmits evs) = scan_addrs 8" "list_all is_scan (transmits evs)"
    by auto
  have "trace ?s1 = trace s @ roster_lines s 0"
    by (simp add: scan_print_loop_eq)
  with e(1) have "emitted s (snd (scan_components P s))
      = roster_lines s 0 @ evs @ [Print Success ''List\<newline>'' []]"
    by (simp add: scan_components_def print_success_def emit_def emitted_def)
  with e(2,3) have x: "\<exists>evs. emitted s (snd (scan_components P s))
              = roster_lines s 0 @ evs @ [Print Success ''List\<newline>'' []]
           \<and> map fst (transmits evs) = scan_addrs 8
           \<and> list_all is_scan (transmits evs)"
    by blast
  have r: "fst (scan_components P s) = SUCCESS_RETURN"
    by (simp add: scan_components_def)
  show ?thesis
    by (intro conjI) (rule r, rule x, rule set_scan_addrs)
qed

theorem scan_components_trace_witness:
  "roster_ok (demo_state ([], []) [])
   \<and> fst (scan_components demo (demo_state ([], []) [])) = SUCCESS_RETURN
   \<and> take 2 (emitted (demo_state ([], []) [])
              (snd (scan_components demo (demo_state ([], []) []))))
       = [Print Info ''P>0x%08x\<newline>'' [ArgU32 0x11111124],
          Print Info ''P>0x%08x\<newline>'' [ArgU32 0x11111125]]
   \<and> last (emitted (demo_state ([], []) [])
             (snd (scan_components demo (demo_state ([], []) []))))
       = Print Success ''List\<newline>'' []"
proof -
  let ?s = "demo_state ([], []) []"
  have r: "roster_ok ?s" by code_simp
  have l: "roster_lines ?s 0
      = [Print Info ''P>0x%08x\<newline>'' [ArgU32 0x11111124],
         Print Info ''P>0x%08x\<newline>'' [ArgU32 0x11111125]]"
    by code_simp
  from scan_components_trace [OF r, of demo]
  obtain evs where "fst (scan_components demo ?s) = SUCCESS_RETURN"
    "emitted ?s (snd (scan_components demo ?s))
       = roster_lines ?s 0 @ evs @ [Print Success ''List\<newline>'' []]"
    by blast
  with r l show ?thesis by simp
qed

section \<open>Secure receive\<close>

lemma trace_reset_msg: "trace (reset_msg P s) = trace s @ [ResetMsg]"
  by (simp add: reset_msg_def emit_def Let_def split: prod.splits)

text \<open>
  Bus scripts for \<^verbatim>\<open>secure_receive\<close>: both receive legs succeed, the second reply has
  the length prefix 3, or 65.
\<close>

definition secure_receive_short :: "demo_env ap_state" where
  "secure_receive_short =
     demo_state ([], [(0, replicate 8 0, 0x31), (0, [3, 0xAA, 0xBB, 0xCC, 0xDD, 0, 0, 0], 0x32)]) []"

definition secure_receive_long :: "demo_env ap_state" where
  "secure_receive_long =
     demo_state ([], [(0, replicate 8 0, 0x31), (0, [65, 0xAA, 0xBB, 0xCC, 0xDD, 0, 0, 0], 0x32)]) []"

text \<open>
  C8. When both receive legs succeed and \<open>receive.contents\<close> is the prefix byte \<open>len\<close>
  followed by \<open>payload\<close>: for \<open>len > 64\<close> the result is -1 and the caller's buffer is as
  it was; otherwise the result is \<open>len\<close> and the first \<open>len\<close> bytes of the buffer are the
  first \<open>len\<close> bytes of \<open>payload\<close>, the rest of the buffer is as it was.
\<close>

theorem secure_receive_length_prefix:
  assumes "ap_poll_recv P addr True (reset_msg P s) = (SUCCESS_RETURN, s1)"
    and "ap_transmit P addr s1 = (rt, s2)"
    and "ap_poll_recv P addr False s2 = (SUCCESS_RETURN, s3)"
    and "contents (receive s3) = len # payload"
  shows "secure_receive P addr buffer s =
           (if len > 64 then (- 1, buffer, s3)
            else (uint len, take (unat len) payload @ drop (unat len) buffer, s3))
       \<and> (len \<le> 64 \<and> unat len \<le> length payload \<and> unat len \<le> length buffer \<longrightarrow>
            take (unat len) (fst (snd (secure_receive P addr buffer s))) = take (unat len) payload
          \<and> drop (unat len) (fst (snd (secure_receive P addr buffer s))) = drop (unat len) buffer
          \<and> length (fst (snd (secure_receive P addr buffer s))) = length buffer
          \<and> fst (secure_receive P addr buffer s) = int (unat len))"
proof -
  have e: "secure_receive P addr buffer s =
           (if len > 64 then (- 1, buffer, s3)
            else (uint len, take (unat len) payload @ drop (unat len) buffer, s3))"
    using assms by (simp add: secure_receive_def Let_def memcpy_def SUCCESS_RETURN_def)
  have "\<not> len > 64" if "len \<le> 64" using that by simp
  with e show ?thesis by (auto simp: min_def)
qed

theorem secure_receive_length_prefix_witness:
  "fst (secure_receive demo 0x24 [1, 2, 3, 4, 5] secure_receive_short) = 3
   \<and> fst (snd (secure_receive demo 0x24 [1, 2, 3, 4, 5] secure_receive_short))
       = [0xAA, 0xBB, 0xCC, 4, 5]
   \<and> fst (secure_receive demo 0x24 [1, 2, 3, 4, 5] secure_receive_long) = - 1
   \<and> fst (snd (secure_receive demo 0x24 [1, 2, 3, 4, 5] secure_receive_long)) = [1, 2, 3, 4, 5]"
proof -
  let ?a = "0x24 :: i2c_addr_t"
  let ?s1 = "snd (ap_poll_recv demo ?a True (reset_msg demo secure_receive_short))"
  let ?s2 = "snd (ap_transmit demo ?a ?s1)"
  let ?s3 = "snd (ap_poll_recv demo ?a False ?s2)"
  have a1: "ap_poll_recv demo ?a True (reset_msg demo secure_receive_short) = (SUCCESS_RETURN, ?s1)"
    by code_simp
  have a2: "ap_transmit demo ?a ?s1 = (fst (ap_transmit demo ?a ?s1), ?s2)"
    by simp
  have a3: "ap_poll_recv demo ?a False ?s2 = (SUCCESS_RETURN, ?s3)"
    by code_simp
  have a4: "contents (receive ?s3) = 3 # [0xAA, 0xBB, 0xCC, 0xDD, 0, 0, 0]"
    by code_simp
  let ?t1 = "snd (ap_poll_recv demo ?a True (reset_msg demo secure_receive_long))"
  let ?t2 = "snd (ap_transmit demo ?a ?t1)"
  let ?t3 = "snd (ap_poll_recv demo ?a False ?t2)"
  have b1: "ap_poll_recv demo ?a True (reset_msg demo secure_receive_long) = (SUCCESS_RETURN, ?t1)"
    by code_simp
  have b2: "ap_transmit demo ?a ?t1 = (fst (ap_transmit demo ?a ?t1), ?t2)"
    by simp
  have b3: "ap_poll_recv demo ?a False ?t2 = (SUCCESS_RETURN, ?t3)"
    by code_simp
  have b4: "contents (receive ?t3) = 65 # [0xAA, 0xBB, 0xCC, 0xDD, 0, 0, 0]"
    by code_simp
  from secure_receive_length_prefix [OF a1 a2 a3 a4, of "[1, 2, 3, 4, 5]"]
    secure_receive_length_prefix [OF b1 b2 b3 b4, of "[1, 2, 3, 4, 5]"]
  show ?thesis by simp
qed

text \<open>A platform that differs only in the result its \<^verbatim>\<open>ap_transmit\<close> reports.\<close>

definition with_transmit_result ::
  "(i2c_addr_t \<Rightarrow> 'e link \<Rightarrow> int) \<Rightarrow> 'e platform \<Rightarrow> 'e platform" where
  "with_transmit_result f P =
     P\<lparr>ext_ap_transmit := \<lambda>a l. (f a l, snd (ext_ap_transmit P a l))\<rparr>"

lemma ap_transmit_with_result:
  "snd (ap_transmit (with_transmit_result f P) a s) = snd (ap_transmit P a s)"
  by (simp add: ap_transmit_def with_transmit_result_def Let_def split: prod.splits)

lemma ap_poll_recv_with_result:
  "ap_poll_recv (with_transmit_result f P) a k s = ap_poll_recv P a k s"
  by (simp add: ap_poll_recv_def with_transmit_result_def Let_def)

lemma reset_msg_with_result:
  "reset_msg (with_transmit_result f P) s = reset_msg P s"
  by (simp add: reset_msg_def with_transmit_result_def Let_def)

text \<open>
  C9. Whatever result the middle \<^verbatim>\<open>ap_transmit\<close> reports, \<^verbatim>\<open>secure_receive\<close> gives the
  same return value, buffer and state; and once the first receive leg succeeds, the
  transmission is followed by the final polled receive.
\<close>

theorem secure_receive_ignores_transmit:
  "secure_receive (with_transmit_result f P) addr buffer s = secure_receive P addr buffer s
   \<and> (fst (ap_poll_recv P addr True (reset_msg P s)) = SUCCESS_RETURN \<longrightarrow>
        (\<exists>t r. emitted s (snd (snd (secure_receive P addr buffer s)))
                 = [ResetMsg, PollRecv addr True, Transmit addr t r, PollRecv addr False]))"
proof -
  obtain r1 s1 where a: "ap_poll_recv P addr True (reset_msg P s) = (r1, s1)"
    by (cases "ap_poll_recv P addr True (reset_msg P s)")
  obtain rt s2 where b: "ap_transmit P addr s1 = (rt, s2)"
    by (cases "ap_transmit P addr s1")
  obtain rt' s2' where b': "ap_transmit (with_transmit_result f P) addr s1 = (rt', s2')"
    by (cases "ap_transmit (with_transmit_result f P) addr s1")
  obtain r2 s3 where c: "ap_poll_recv P addr False s2 = (r2, s3)"
    by (cases "ap_poll_recv P addr False s2")
  from b b' have s2: "s2' = s2"
    using ap_transmit_with_result [of f P addr s1] by simp
  have 1: "secure_receive (with_transmit_result f P) addr buffer s = secure_receive P addr buffer s"
    using a b b' c s2
    by (simp add: secure_receive_def Let_def ap_poll_recv_with_result reset_msg_with_result)
  have t1: "trace s1 = trace s @ [ResetMsg, PollRecv addr True]"
    using a trace_ap_poll_recv [of P addr True "reset_msg P s"] by (simp add: trace_reset_msg)
  have t2: "trace s2 = trace s1 @ [Transmit addr (transmit s1) (receive s1)]"
    using b trace_ap_transmit [of P addr s1] by simp
  have t3: "trace s3 = trace s2 @ [PollRecv addr False]"
    using c trace_ap_poll_recv [of P addr False s2] by simp
  have "snd (snd (secure_receive P addr buffer s)) = s3" if "r1 = SUCCESS_RETURN"
    using that a b c by (simp add: secure_receive_def Let_def)
  with t1 t2 t3 a have "fst (ap_poll_recv P addr True (reset_msg P s)) = SUCCESS_RETURN \<longrightarrow>
        (\<exists>t r. emitted s (snd (snd (secure_receive P addr buffer s)))
                 = [ResetMsg, PollRecv addr True, Transmit addr t r, PollRecv addr False])"
    by (simp add: emitted_def)
  with 1 show ?thesis by blast
qed

theorem secure_receive_ignores_transmit_witness:
  "secure_receive (with_transmit_result (\<lambda>a l. - 1) demo) 0x24 [1, 2, 3, 4, 5] secure_receive_short
     = secure_receive demo 0x24 [1, 2, 3, 4, 5] secure_receive_short
   \<and> fst (ap_poll_recv demo 0x24 True (reset_msg demo secure_receive_short)) = SUCCESS_RETURN
   \<and> fst (ap_transmit (with_transmit_result (\<lambda>a l. - 1) demo) 0x24
            (snd (ap_poll_recv demo 0x24 True (reset_msg demo secure_receive_short)))) = - 1
   \<and> last (emitted secure_receive_short
        (snd (snd (secure_receive demo 0x24 [1, 2, 3, 4, 5] secure_receive_short))))
       = PollRecv 0x24 False"
proof -
  have h: "fst (ap_poll_recv demo 0x24 True (reset_msg demo secure_receive_short)) = SUCCESS_RETURN"
    by code_simp
  have f: "fst (ap_transmit (with_transmit_result (\<lambda>a l. - 1) demo) 0x24
            (snd (ap_poll_recv demo 0x24 True (reset_msg demo secure_receive_short)))) = - 1"
    by code_simp
  from secure_receive_ignores_transmit
    [of "\<lambda>a l. - 1" demo "0x24" "[1, 2, 3, 4, 5]" secure_receive_short] h
  obtain t r where
    "secure_receive (with_transmit_result (\<lambda>a l. - 1) demo) 0x24 [1, 2, 3, 4, 5] secure_receive_short
       = secure_receive demo 0x24 [1, 2, 3, 4, 5] secure_receive_short"
    "emitted secure_receive_short
        (snd (snd (secure_receive demo 0x24 [1, 2, 3, 4, 5] secure_receive_short)))
       = [ResetMsg, PollRecv 0x24 True, Transmit 0x24 t r, PollRecv 0x24 False]"
    by auto
  with h f show ?thesis by simp
qed

section \<open>Replacing a component\<close>

text \<open>The events of the flash driver.\<close>

fun is_flash_event :: "event \<Rightarrow> bool" where
  "is_flash_event FlashErase = True"
| "is_flash_event (FlashWrite bs) = True"
| "is_flash_event e = False"

text \<open>
  \<^verbatim>\<open>attempt_replace\<close> after its two \<^verbatim>\<open>sscanf\<close> calls: the duplicate check and the
  search for the slot to swap, on the two IDs.
\<close>

definition replace_ids :: "'e platform \<Rightarrow> u32 \<Rightarrow> u32 \<Rightarrow> 'e ap_state \<Rightarrow> 'e ap_state" where
  "replace_ids P component_id_in component_id_out s =
     (if provisioned_from component_id_in 0 s
      then print_error ''Component 0x%08x is already provisioned!\<newline>''
             [ArgU32 component_id_in] s
      else swap_loop P component_id_in component_id_out 0 s)"

text \<open>
  \<^verbatim>\<open>attempt_replace\<close> up to its two \<^verbatim>\<open>sscanf\<close> calls: \<open>None\<close> when the token is refused,
  otherwise the two IDs (0 where nothing was converted) and the state.
\<close>

definition replace_inputs ::
  "'e platform \<Rightarrow> string \<Rightarrow> string \<Rightarrow> 'e ap_state \<Rightarrow> (u32 \<times> u32 \<times> 'e ap_state) option" where
  "replace_inputs P tokbuf0 buf0 s =
     (let (tok, s1) = validate_token P tokbuf0 s
      in if tok \<noteq> 0 then None
         else let (buf1, s2) = recv_input ''Component ID In: '' buf0 50 s1;
                  (buf2, s3) = recv_input ''Component ID Out: '' buf1 50 s2
              in Some (scan_id P buf1 0, scan_id P buf2 0, s3))"

lemma attempt_replace_inputs:
  "replace_inputs P tb b0 s = Some (id_in, id_out, s3) \<Longrightarrow>
   attempt_replace P tb b0 s = replace_ids P id_in id_out s3"
  by (auto simp: replace_inputs_def attempt_replace_def replace_ids_def Let_def
      split: prod.splits if_splits)

lemma recv_input_frame:
  assumes "recv_input msg buf len s = (b, s')"
  shows "flash_status s' = flash_status s" "flash s' = flash s"
    "trace s' = trace s @ [Print Debug msg [], Ack, Puts []]"
  using assms
  by (auto simp: recv_input_def Let_def emit_def print_debug_def split: option.splits prod.splits)

lemma validate_token_frame:
  assumes "validate_token P tb s = (r, s')"
  shows "flash_status s' = flash_status s" "flash s' = flash s"
    "\<exists>evs. trace s' = trace s @ evs \<and> \<not> list_ex is_flash_event evs"
proof -
  obtain b s1 where i: "recv_input ''Enter token: '' tb 50 s = (b, s1)"
    by (cases "recv_input ''Enter token: '' tb 50 s")
  note f = recv_input_frame [OF i]
  from assms i f show "flash_status s' = flash_status s" "flash s' = flash s"
    by (auto simp: validate_token_def Let_def emit_def print_debug_def print_error_def
        split: if_splits)
  from assms i f(3) show "\<exists>evs. trace s' = trace s @ evs \<and> \<not> list_ex is_flash_event evs"
    by (auto simp: validate_token_def Let_def emit_def print_debug_def print_error_def
        split: if_splits)
qed

lemma replace_inputs_frame:
  assumes "replace_inputs P tb b0 s = Some (id_in, id_out, s3)"
  shows "flash_status s3 = flash_status s" "flash s3 = flash s"
    "\<exists>evs. trace s3 = trace s @ evs \<and> \<not> list_ex is_flash_event evs"
proof -
  obtain r s1 where t: "validate_token P tb s = (r, s1)"
    by (cases "validate_token P tb s")
  obtain buf1 s2 where i1: "recv_input ''Component ID In: '' b0 50 s1 = (buf1, s2)"
    by (cases "recv_input ''Component ID In: '' b0 50 s1")
  obtain buf2 s3' where i2: "recv_input ''Component ID Out: '' buf1 50 s2 = (buf2, s3')"
    by (cases "recv_input ''Component ID Out: '' buf1 50 s2")
  from assms t i1 i2 have s3: "s3' = s3"
    by (simp add: replace_inputs_def split: if_splits)
  note ft = validate_token_frame [OF t]
  note f1 = recv_input_frame [OF i1]
  note f2 = recv_input_frame [OF i2]
  from ft(1) f1(1) f2(1) s3 show "flash_status s3 = flash_status s" by simp
  from ft(2) f1(2) f2(2) s3 show "flash s3 = flash s" by simp
  from ft(3) obtain evs where e: "trace s1 = trace s @ evs" "\<not> list_ex is_flash_event evs"
    by blast
  let ?evs = "evs @ [Print Debug ''Component ID In: '' [], Ack, Puts [],
                    Print Debug ''Component ID Out: '' [], Ack, Puts []]"
  from e f1(3) f2(3) s3 have "trace s3 = trace s @ ?evs" "\<not> list_ex is_flash_event ?evs"
    by simp_all
  then show "\<exists>evs. trace s3 = trace s @ evs \<and> \<not> list_ex is_flash_event evs"
    by blast
qed

lemma provisioned_from_iff:
  "provisioned_from c k s \<longleftrightarrow> (\<exists>i. k \<le> i \<and> i < cnt s \<and> comp_id s i = c)"
proof (induction c k s rule: provisioned_from.induct)
  case (1 c k s)
  show ?case
  proof (cases "k < cnt s")
    case False
    then show ?thesis by (simp add: provisioned_from.simps [of c k s])
  next
    case True
    show ?thesis
    proof (cases "comp_id s k = c")
      case True
      with \<open>k < cnt s\<close> show ?thesis
        by (auto simp: provisioned_from.simps [of c k s])
    next
      case False
      with 1 [OF True False] True
      have "provisioned_from c k s \<longleftrightarrow> (\<exists>i. k + 1 \<le> i \<and> i < cnt s \<and> comp_id s i = c)"
        by (simp add: provisioned_from.simps [of c k s])
      also have "\<dots> \<longleftrightarrow> (\<exists>i. k \<le> i \<and> i < cnt s \<and> comp_id s i = c)"
        using False by (metis Suc_eq_plus1 Suc_leD Suc_leI le_neq_implies_less)
      finally show ?thesis .
    qed
  qed
qed

lemma swap_loop_first:
  "n = i - k \<Longrightarrow> k \<le> i \<Longrightarrow> i < cnt s \<Longrightarrow> comp_id s i = b \<Longrightarrow>
   (\<forall>j. k \<le> j \<and> j < i \<longrightarrow> comp_id s j \<noteq> b) \<Longrightarrow>
   swap_loop P a b k s = replace_slot P a b i s"
proof (induction n arbitrary: k)
  case 0
  then have "k = i" by simp
  with 0 show ?case by (simp add: swap_loop.simps [of P a b i s])
next
  case (Suc n)
  then have lt: "k < i" by simp
  with Suc.prems have ne: "comp_id s k \<noteq> b" by simp
  from Suc.prems lt have "swap_loop P a b (Suc k) s = replace_slot P a b i s"
    by (intro Suc.IH) auto
  with lt ne Suc.prems show ?case
    by (simp add: swap_loop.simps [of P a b k s])
qed

text \<open>
  Console scripts for \<^verbatim>\<open>attempt_replace\<close> on the test roster: the valid token, then
  the line for Component ID In and the line for Component ID Out.
\<close>

definition replace_dup_input :: "demo_env ap_state" where
  "replace_dup_input =
     demo_state ([], [])
       (''0123456789abcdef'' @ [CHR 0x0A] @ ''11111125'' @ [CHR 0x0A] @ ''11111124'' @ [CHR 0x0A])"

definition replace_bad_input :: "demo_env ap_state" where
  "replace_bad_input =
     demo_state ([], [])
       (''0123456789abcdef'' @ [CHR 0x0A] @ ''zz'' @ [CHR 0x0A] @ ''11111124'' @ [CHR 0x0A])"

definition replace_good_input :: "demo_env ap_state" where
  "replace_good_input =
     demo_state ([], [])
       (''0123456789abcdef'' @ [CHR 0x0A] @ ''11111126'' @ [CHR 0x0A] @ ''11111124'' @ [CHR 0x0A])"

text \<open>
  C3. When the token is accepted and the ID read as Component ID In is in a slot
  below \<open>component_cnt\<close>, \<^verbatim>\<open>attempt_replace\<close> ends with the duplicate error, whatever
  Component ID Out is: \<open>flash_status\<close> and the flash page are as before the call and
  the trace of the call has no flash erase and no flash write.
\<close>

theorem replace_duplicate:
  assumes "roster_ok s"
    and "replace_inputs P tb b0 s = Some (id_in, id_out, s3)"
    and "i < cnt s" and "comp_id s i = id_in"
  shows "attempt_replace P tb b0 s
           = print_error ''Component 0x%08x is already provisioned!\<newline>'' [ArgU32 id_in] s3
       \<and> flash (attempt_replace P tb b0 s) = flash s
       \<and> flash_status (attempt_replace P tb b0 s) = flash_status s
       \<and> \<not> list_ex is_flash_event (emitted s (attempt_replace P tb b0 s))"
proof -
  note f = replace_inputs_frame [OF assms(2)]
  from f(1) assms(3,4) have "provisioned_from id_in 0 s3"
    by (auto simp: provisioned_from_iff cnt_def comp_id_def)
  with attempt_replace_inputs [OF assms(2)]
  have a: "attempt_replace P tb b0 s
           = print_error ''Component 0x%08x is already provisioned!\<newline>'' [ArgU32 id_in] s3"
    by (simp add: replace_ids_def)
  from f(3) obtain evs where e: "trace s3 = trace s @ evs" "\<not> list_ex is_flash_event evs"
    by blast
  have "emitted s (attempt_replace P tb b0 s)
      = evs @ [Print Error ''Component 0x%08x is already provisioned!\<newline>'' [ArgU32 id_in]]"
    unfolding a using e(1) by (simp add: emitted_def print_error_def emit_def)
  with e(2) have "\<not> list_ex is_flash_event (emitted s (attempt_replace P tb b0 s))"
    by simp
  moreover have "flash (attempt_replace P tb b0 s) = flash s"
    "flash_status (attempt_replace P tb b0 s) = flash_status s"
    unfolding a using f(1,2) by (simp_all add: print_error_def emit_def)
  ultimately show ?thesis using a by blast
qed

theorem replace_duplicate_witness:
  "roster_ok replace_dup_input
   \<and> (1::nat) < cnt replace_dup_input
   \<and> comp_id replace_dup_input 1 = 0x11111125
   \<and> flash (attempt_replace demo [] [] replace_dup_input) = flash replace_dup_input
   \<and> flash_status (attempt_replace demo [] [] replace_dup_input) = flash_status replace_dup_input
   \<and> \<not> list_ex is_flash_event
         (emitted replace_dup_input (attempt_replace demo [] [] replace_dup_input))"
proof -
  let ?s3 = "snd (snd (the (replace_inputs demo [] [] replace_dup_input)))"
  have a: "replace_inputs demo [] [] replace_dup_input = Some (0x11111125, 0x11111124, ?s3)"
    by code_simp
  have r: "roster_ok replace_dup_input" by code_simp
  have b: "(1::nat) < cnt replace_dup_input" by code_simp
  have c: "comp_id replace_dup_input 1 = 0x11111125" by code_simp
  from replace_duplicate [OF r a b c] r b c show ?thesis by blast
qed

text \<open>
  C10. When the token is accepted, a Component ID In line on which \<^verbatim>\<open>sscanf\<close> converts
  nothing leaves \<open>component_id_in\<close> at its initial 0 and the command goes on to the
  duplicate check and the slot search with ID 0; the same holds for Component ID
  Out. Between the token check and those loops only the two prompts are emitted: no
  error is reported for the input.
\<close>

theorem replace_unparsed_id:
  assumes "validate_token P tb s = (SUCCESS_RETURN, s1)"
    and "recv_input ''Component ID In: '' b0 50 s1 = (buf1, s2)"
    and "recv_input ''Component ID Out: '' buf1 50 s2 = (buf2, s3)"
  shows "(ext_sscanf_x P buf1 = None \<longrightarrow>
            attempt_replace P tb b0 s = replace_ids P 0 (scan_id P buf2 0) s3)
       \<and> (ext_sscanf_x P buf2 = None \<longrightarrow>
            attempt_replace P tb b0 s = replace_ids P (scan_id P buf1 0) 0 s3)
       \<and> emitted s1 s3 = [Print Debug ''Component ID In: '' [], Ack, Puts [],
                           Print Debug ''Component ID Out: '' [], Ack, Puts []]"
proof -
  from assms have "replace_inputs P tb b0 s = Some (scan_id P buf1 0, scan_id P buf2 0, s3)"
    by (simp add: replace_inputs_def SUCCESS_RETURN_def)
  from attempt_replace_inputs [OF this]
  have a: "attempt_replace P tb b0 s = replace_ids P (scan_id P buf1 0) (scan_id P buf2 0) s3" .
  have "emitted s1 s3 = [Print Debug ''Component ID In: '' [], Ack, Puts [],
                           Print Debug ''Component ID Out: '' [], Ack, Puts []]"
    using recv_input_frame(3) [OF assms(2)] recv_input_frame(3) [OF assms(3)]
    by (simp add: emitted_def)
  with a show ?thesis by (simp add: scan_id_def)
qed

theorem replace_unparsed_id_witness:
  "ext_sscanf_x demo ''zz'' = None
   \<and> attempt_replace demo [] [] replace_bad_input
       = replace_ids demo 0 0x11111124
           (snd (recv_input ''Component ID Out: '' ''zz'' 50
             (snd (recv_input ''Component ID In: '' [] 50
               (snd (validate_token demo [] replace_bad_input))))))
   \<and> take 2 (component_ids (flash_status (attempt_replace demo [] [] replace_bad_input)))
       = [0, 0x11111125]"
proof -
  let ?s1 = "snd (validate_token demo [] replace_bad_input)"
  let ?s2 = "snd (recv_input ''Component ID In: '' [] 50 ?s1)"
  let ?s3 = "snd (recv_input ''Component ID Out: '' ''zz'' 50 ?s2)"
  have h1: "validate_token demo [] replace_bad_input = (SUCCESS_RETURN, ?s1)" by code_simp
  have h2: "recv_input ''Component ID In: '' [] 50 ?s1 = (''zz'', ?s2)" by code_simp
  have h3: "recv_input ''Component ID Out: '' ''zz'' 50 ?s2 = (''11111124'', ?s3)" by code_simp
  have p: "ext_sscanf_x demo ''zz'' = None" by code_simp
  have q: "scan_id demo ''11111124'' 0 = 0x11111124" by code_simp
  have r: "take 2 (component_ids (flash_status (replace_ids demo 0 0x11111124 ?s3)))
       = [0, 0x11111125]" by code_simp
  from replace_unparsed_id [OF h1 h2 h3] p q
  have "attempt_replace demo [] [] replace_bad_input = replace_ids demo 0 0x11111124 ?s3"
    by simp
  with p r show ?thesis by simp
qed

text \<open>The array fields of a record have their declared sizes.\<close>

definition wf_roster :: "'e platform \<Rightarrow> flash_entry \<Rightarrow> bool" where
  "wf_roster P fe \<longleftrightarrow>
     length (component_ids fe) = 32 \<and> length (hash fe) = HASH_LEN P \<and> length (iv fe) = IV_LEN P"

text \<open>The two checks of \<^verbatim>\<open>init\<close> on the decrypted flash record: magic and hash.\<close>

definition flash_intact :: "'e platform \<Rightarrow> 'e ap_state \<Rightarrow> bool" where
  "flash_intact P s =
     (let raw = flash_simple_read (sizeof_flash_entry P) s;
          raw1 = memcpy raw
                   (ext_aes_decrypt P (take FLASH_ENC_LEN raw) (iv (entry_of_bytes P raw)))
                   FLASH_ENC_LEN;
          fs1 = entry_of_bytes P raw1
      in flash_magic fs1 = FLASH_MAGIC P
         \<and> take (HASH_LEN P) (hash fs1)
             = take (HASH_LEN P) (ext_hash P (take (FLASH_ENC_LEN - 24) raw1)))"

text \<open>The bytes of the \<open>iv\<close> field in a stored record.\<close>

definition flash_iv :: "'e platform \<Rightarrow> u8 list \<Rightarrow> u8 list" where
  "flash_iv P bytes = take (IV_LEN P) (drop (136 + HASH_LEN P) bytes)"

lemma init_intact:
  assumes "flash_intact P s"
  shows "flash (init P s) = flash s" "env (init P s) = env s"
    "emitted s (init P s) = [BoardLinkInit]"
  using assms
  by (simp_all add: init_def flash_intact_def Let_def emit_def emitted_def
      SUCCESS_RETURN_def ERROR_RETURN_def)

lemma init_reroll:
  assumes "\<not> flash_intact P s"
  shows "take 16 (iv (flash_status (init P s)))
       = u64_bytes (fst (ext_rng_gen P (env s)))
         @ u64_bytes (fst (ext_rng_gen P (snd (ext_rng_gen P (env s)))))"
proof -
  have l: "length (u64_bytes v) = 8" for v by (simp add: u64_bytes_def)
  obtain r1 e1 where a: "ext_rng_gen P (env s) = (r1, e1)" by (cases "ext_rng_gen P (env s)")
  obtain r2 e2 where b: "ext_rng_gen P e1 = (r2, e2)" by (cases "ext_rng_gen P e1")
  have "\<exists>rest. iv (flash_status (init P s)) = u64_bytes r1 @ u64_bytes r2 @ rest"
    using assms a b
    by (auto simp: init_def Let_def flash_intact_def SUCCESS_RETURN_def ERROR_RETURN_def
        print_debug_def emit_def store_roster_def flash_simple_write_def
        flash_simple_erase_page_def split: if_splits)
  then show ?thesis using a b by (auto simp: l)
qed

lemma flash_iv_encrypted_copy:
  assumes "wf_roster P fe" and "24 \<le> HASH_LEN P"
    and "length (ext_aes_encrypt P (take FLASH_ENC_LEN (entry_bytes fe)) (iv fe)) = FLASH_ENC_LEN"
  shows "flash_iv P (memcpy old (encrypted_copy P fe) (sizeof_flash_entry P)) = iv fe"
proof -
  let ?c = "ext_aes_encrypt P (take FLASH_ENC_LEN (entry_bytes fe)) (iv fe)"
  from assms(1) have h: "length (header_ids fe) = 136" "length (hash fe) = HASH_LEN P"
    "length (iv fe) = IV_LEN P"
    by (simp_all add: wf_roster_def length_header_ids)
  from h assms(2) have d: "drop FLASH_ENC_LEN (entry_bytes fe) = drop 24 (hash fe) @ iv fe"
    by (simp add: entry_bytes_def FLASH_ENC_LEN_def)
  have e: "encrypted_copy P fe = ?c @ drop 24 (hash fe) @ iv fe"
    using assms(3) d by (simp add: encrypted_copy_def memcpy_def)
  from h assms(2,3) have n: "length (?c @ drop 24 (hash fe)) = 136 + HASH_LEN P"
    by (simp add: FLASH_ENC_LEN_def)
  from n h have t: "length (encrypted_copy P fe) = sizeof_flash_entry P"
    unfolding e by (simp add: sizeof_flash_entry_def)
  have "memcpy old (encrypted_copy P fe) (sizeof_flash_entry P)
      = (?c @ drop 24 (hash fe)) @ iv fe @ drop (sizeof_flash_entry P) old"
    using t by (simp add: memcpy_def e)
  then have "drop (136 + HASH_LEN P) (memcpy old (encrypted_copy P fe) (sizeof_flash_entry P))
      = iv fe @ drop (sizeof_flash_entry P) old"
    using n by (simp only: append_eq_conv_conj drop_append) simp
  with h(3) show ?thesis by (simp add: flash_iv_def)
qed

lemma replace_slot_effect:
  "flash_status (replace_slot P a b i s)
     = update_hash P ((flash_status s)\<lparr>component_ids := (component_ids (flash_status s))[i := a]\<rparr>)"
  "flash (replace_slot P a b i s)
     = memcpy (replicate (length (flash s)) 0xFF)
         (encrypted_copy P (flash_status (replace_slot P a b i s))) (sizeof_flash_entry P)"
  by (simp_all add: replace_slot_def Let_def store_roster_def flash_simple_write_def
      flash_simple_erase_page_def print_success_def print_debug_def emit_def)

text \<open>
  C7. A successful replace (token accepted, \<open>id_in\<close> in no slot below
  \<open>component_cnt\<close>, \<open>i\<close> the first slot holding \<open>id_out\<close>) changes \<open>flash_status\<close> in
  slot \<open>i\<close> of the IDs and in the hash only: magic, count, the other slots and the IV
  are as before. The page is rewritten with the encrypted copy of that record, and
  the IV bytes it stores are the IV the record had before the call. \<^verbatim>\<open>init\<close> draws a
  new IV exactly when its magic or hash check fails; otherwise it leaves the flash
  and the random source alone.
\<close>

theorem replace_frame:
  assumes "roster_ok s"
    and "replace_inputs P tb b0 s = Some (id_in, id_out, s3)"
    and "\<forall>j<cnt s. comp_id s j \<noteq> id_in"
    and "i < cnt s" and "comp_id s i = id_out" and "\<forall>j<i. comp_id s j \<noteq> id_out"
  shows "flash_status (attempt_replace P tb b0 s)
           = update_hash P ((flash_status s)
               \<lparr>component_ids := (component_ids (flash_status s))[i := id_in]\<rparr>)
       \<and> flash_magic (flash_status (attempt_replace P tb b0 s)) = flash_magic (flash_status s)
       \<and> component_cnt (flash_status (attempt_replace P tb b0 s)) = component_cnt (flash_status s)
       \<and> component_ids (flash_status (attempt_replace P tb b0 s))
           = (component_ids (flash_status s))[i := id_in]
       \<and> iv (flash_status (attempt_replace P tb b0 s)) = iv (flash_status s)
       \<and> flash (attempt_replace P tb b0 s)
           = memcpy (replicate (length (flash s)) 0xFF)
               (encrypted_copy P (flash_status (attempt_replace P tb b0 s)))
               (sizeof_flash_entry P)
       \<and> (wf_roster P (flash_status s) \<and> 24 \<le> HASH_LEN P
            \<and> (\<forall>bs. length (ext_hash P bs) = HASH_LEN P)
            \<and> (\<forall>bs k. length (ext_aes_encrypt P bs k) = length bs)
          \<longrightarrow> flash_iv P (flash (attempt_replace P tb b0 s)) = iv (flash_status s))
       \<and> (flash_intact P s0 \<longrightarrow> flash (init P s0) = flash s0 \<and> env (init P s0) = env s0)
       \<and> (\<not> flash_intact P s0 \<longrightarrow>
            take 16 (iv (flash_status (init P s0)))
              = u64_bytes (fst (ext_rng_gen P (env s0)))
                @ u64_bytes (fst (ext_rng_gen P (snd (ext_rng_gen P (env s0))))))"
proof -
  let ?fs = "flash_status s"
  let ?fs' = "update_hash P (?fs\<lparr>component_ids := (component_ids ?fs)[i := id_in]\<rparr>)"
  note f = replace_inputs_frame [OF assms(2)]
  from f(1) have same: "cnt s3 = cnt s" "\<And>j. comp_id s3 j = comp_id s j"
    by (simp_all add: cnt_def comp_id_def)
  from assms(3) same have "\<not> provisioned_from id_in 0 s3"
    by (simp add: provisioned_from_iff)
  moreover from assms(4-6) same have "swap_loop P id_in id_out 0 s3 = replace_slot P id_in id_out i s3"
    by (intro swap_loop_first [of i i 0]) auto
  ultimately have a: "attempt_replace P tb b0 s = replace_slot P id_in id_out i s3"
    using attempt_replace_inputs [OF assms(2)] by (simp add: replace_ids_def)
  have 1: "flash_status (attempt_replace P tb b0 s) = ?fs'"
    unfolding a using f(1) by (simp add: replace_slot_effect)
  have 2: "flash (attempt_replace P tb b0 s)
           = memcpy (replicate (length (flash s)) 0xFF)
               (encrypted_copy P (flash_status (attempt_replace P tb b0 s)))
               (sizeof_flash_entry P)"
    unfolding a using f(2) by (simp add: replace_slot_effect)
  have 3: "flash_iv P (flash (attempt_replace P tb b0 s)) = iv ?fs"
    if w: "wf_roster P ?fs" "24 \<le> HASH_LEN P" "\<forall>bs. length (ext_hash P bs) = HASH_LEN P"
      "\<forall>bs k. length (ext_aes_encrypt P bs k) = length bs"
  proof -
    from w(1,3) have wf': "wf_roster P ?fs'"
      by (simp add: wf_roster_def update_hash_def)
    from wf' w(2) have "FLASH_ENC_LEN \<le> length (entry_bytes ?fs')"
      by (simp add: wf_roster_def entry_bytes_def length_header_ids FLASH_ENC_LEN_def)
    with w(4) have "length (ext_aes_encrypt P (take FLASH_ENC_LEN (entry_bytes ?fs')) (iv ?fs'))
        = FLASH_ENC_LEN"
      by simp
    from flash_iv_encrypted_copy [OF wf' w(2) this]
    show ?thesis unfolding 2 1 by (simp add: update_hash_def)
  qed
  from 1 have 4: "flash_magic (flash_status (attempt_replace P tb b0 s)) = flash_magic ?fs"
    "component_cnt (flash_status (attempt_replace P tb b0 s)) = component_cnt ?fs"
    "component_ids (flash_status (attempt_replace P tb b0 s)) = (component_ids ?fs)[i := id_in]"
    "iv (flash_status (attempt_replace P tb b0 s)) = iv ?fs"
    by (simp_all add: update_hash_def)
  show ?thesis
    using 1 2 3 4 init_intact(1,2) [of P s0] init_reroll [of P s0] by blast
qed

theorem replace_frame_witness:
  "roster_ok replace_good_input
   \<and> take 2 (component_ids (flash_status (attempt_replace demo [] [] replace_good_input)))
     = [0x11111126, 0x11111125]
   \<and> iv (flash_status (attempt_replace demo [] [] replace_good_input)) = replicate 16 7
   \<and> flash_iv demo (flash (attempt_replace demo [] [] replace_good_input)) = replicate 16 7
   \<and> \<not> flash_intact demo replace_good_input
   \<and> take 16 (iv (flash_status (init demo replace_good_input)))
       = [0x88, 0x77, 0x66, 0x55, 0x44, 0x33, 0x22, 0x11, 0x88, 0x77, 0x66, 0x55, 0x44, 0x33, 0x22, 0x11]
   \<and> flash_intact demo (init demo replace_good_input)
   \<and> flash (init demo (init demo replace_good_input)) = flash (init demo replace_good_input)"
proof -
  let ?s = "replace_good_input"
  let ?s3 = "snd (snd (the (replace_inputs demo [] [] ?s)))"
  have a: "replace_inputs demo [] [] ?s = Some (0x11111126, 0x11111124, ?s3)" by code_simp
  have ok: "roster_ok ?s" by code_simp
  have n: "cnt ?s = 2" by code_simp
  have c0: "comp_id ?s 0 = 0x11111124" by code_simp
  have c1: "comp_id ?s 1 = 0x11111125" by code_simp
  have b: "\<forall>j<cnt ?s. comp_id ?s j \<noteq> 0x11111126"
    using n c0 c1 by (auto simp: less_2_cases_iff)
  have i: "0 < cnt ?s" using n by simp
  have f: "\<forall>j<0::nat. comp_id ?s j \<noteq> 0x11111124" by simp
  have w: "wf_roster demo (flash_status ?s)" by code_simp
  have h: "24 \<le> HASH_LEN demo" "\<forall>bs. length (ext_hash demo bs) = HASH_LEN demo"
    "\<forall>bs k. length (ext_aes_encrypt demo bs k) = length bs"
    by (auto simp: demo_def)
  have v: "iv (flash_status ?s) = replicate 16 7" "(component_ids (flash_status ?s))[0 := 0x11111126]
      = [0x11111126, 0x11111125] @ replicate 30 0"
    by (simp_all add: replace_good_input_def demo_state_def demo_roster_def)
  have x: "\<not> flash_intact demo ?s" by code_simp
  have y: "flash_intact demo (init demo ?s)" by code_simp
  have z: "u64_bytes (fst (ext_rng_gen demo (env ?s)))
                @ u64_bytes (fst (ext_rng_gen demo (snd (ext_rng_gen demo (env ?s)))))
     = [0x88, 0x77, 0x66, 0x55, 0x44, 0x33, 0x22, 0x11, 0x88, 0x77, 0x66, 0x55, 0x44, 0x33, 0x22, 0x11]"
    by code_simp
  note r = replace_frame [OF ok a b i c0 f, of ?s]
  from r have "component_ids (flash_status (attempt_replace demo [] [] ?s))
      = (component_ids (flash_status ?s))[0 := 0x11111126]"
    by blast
  with v(2) have 11: "take 2 (component_ids (flash_status (attempt_replace demo [] [] ?s)))
     = [0x11111126, 0x11111125]"
    by simp
  from r have "iv (flash_status (attempt_replace demo [] [] ?s)) = iv (flash_status ?s)"
    by blast
  with v(1) have 12: "iv (flash_status (attempt_replace demo [] [] ?s)) = replicate 16 7"
    by simp
  from r w h have "flash_iv demo (flash (attempt_replace demo [] [] ?s)) = iv (flash_status ?s)"
    by blast
  with v(1) have 13: "flash_iv demo (flash (attempt_replace demo [] [] ?s)) = replicate 16 7"
    by simp
  from r x have "take 16 (iv (flash_status (init demo ?s)))
      = u64_bytes (fst (ext_rng_gen demo (env ?s)))
                @ u64_bytes (fst (ext_rng_gen demo (snd (ext_rng_gen demo (env ?s)))))"
    by blast
  with z have 14: "take 16 (iv (flash_status (init demo ?s)))
       = [0x88, 0x77, 0x66, 0x55, 0x44, 0x33, 0x22, 0x11, 0x88, 0x77, 0x66, 0x55, 0x44, 0x33, 0x22, 0x11]"
    by simp
  from replace_frame [OF ok a b i c0 f, of "init demo ?s"] y
  have 2: "flash (init demo (init demo ?s)) = flash (init demo ?s)" by blast
  from ok 11 12 13 14 2 x y show ?thesis by simp
qed

end
